theory Spec2Isabelle
  imports Complex_Main "HOL-Library.Sublist"
begin


section \<open>Strings\<close>

text \<open>
  A JavaScript string is modelled as a \<^typ>\<open>string\<close>; a character stands for a UTF-16
  code unit below 256. The character classes of the regular expressions of
  \<^verbatim>\<open>script.js\<close> are written as predicates on characters.
\<close>

definition digit :: "char \<Rightarrow> bool" where
  "digit c = (c \<in> set ''0123456789'')"

definition letter :: "char \<Rightarrow> bool" where
  "letter c = (c \<in> set ''ABCDEFGHIJKLMNOPQRSTUVWXYZabcdefghijklmnopqrstuvwxyz'')"

text \<open>The class \<^verbatim>\<open>\s\<close>: tab, line feed, vertical tab, form feed, carriage return,
  space and no-break space (the members with a code below 256).\<close>

definition whitespace :: "char \<Rightarrow> bool" where
  "whitespace c = (of_char c \<in> {9, 10, 11, 12, 13, 32, 160 :: nat})"

text \<open>\<^verbatim>\<open>s.trim()\<close>: the string without its leading and trailing white space.\<close>

definition trim :: "string \<Rightarrow> string" where
  "trim s = rev (dropWhile whitespace (rev (dropWhile whitespace s)))"

text \<open>\<^verbatim>\<open>s.includes(t)\<close>: \<open>t\<close> occurs in \<open>s\<close> as a contiguous substring.\<close>

fun str_includes :: "string \<Rightarrow> string \<Rightarrow> bool" where
  "str_includes [] t = (t = [])"
| "str_includes (c # s) t = (prefix t (c # s) \<or> str_includes s t)"

text \<open>\<^verbatim>\<open>s.slice(-1)\<close> and \<^verbatim>\<open>s.slice(0, -1)\<close>.\<close>

definition slice_last :: "string \<Rightarrow> string" where
  "slice_last s = (if s = [] then [] else [last s])"

definition slice_init :: "string \<Rightarrow> string" where
  "slice_init s = butlast s"

section \<open>Sanitization (evaluateExpression, lines 183 to 198)\<close>

text \<open>Line 183: \<^verbatim>\<open>replace(/\s+/g, "")\<close>.\<close>

definition remove_spaces :: "string \<Rightarrow> string" where
  "remove_spaces s = filter (\<lambda>c. \<not> whitespace c) s"

text \<open>Line 190: \<^verbatim>\<open>replace(/[^0-9+\-*/^().%A-Za-z]/g, "")\<close>.\<close>

definition allowed :: "char \<Rightarrow> bool" where
  "allowed c = (digit c \<or> c \<in> set ''+-*/^().%'' \<or> letter c)"

definition remove_disallowed :: "string \<Rightarrow> string" where
  "remove_disallowed s = filter allowed s"

text \<open>Line 195: \<^verbatim>\<open>replace(/\^/g, "**")\<close>.\<close>

definition caret_to_power :: "string \<Rightarrow> string" where
  "caret_to_power s = concat (map (\<lambda>c. if c = CHR ''^'' then ''**'' else [c]) s)"

text \<open>
  Line 198: \<^verbatim>\<open>replace(/(\d+(\.\d+)?)%/g, "($1/100)")\<close>.

  \<open>match_percent s\<close> is the match of the pattern at the start of \<open>s\<close>: the text of
  group 1 and the rest of the string after the percent sign. The pattern has one way to
  match at a given start: \<^verbatim>\<open>\d+\<close> must take the whole run of digits, since what follows
  it in the pattern starts with a dot or a percent sign; the same holds for the digits
  of the optional group, and when the group is left out although a dot follows, the
  percent sign of the pattern meets that dot.
\<close>

definition match_percent :: "string \<Rightarrow> (string \<times> string) option" where
  "match_percent s =
     (let ds = takeWhile digit s; r = dropWhile digit s in
      if ds = [] then None
      else case r of
        [] \<Rightarrow> None
      | c # r' \<Rightarrow>
          if c = CHR ''%'' then Some (ds, r')
          else if c = CHR ''.'' then
            (let fs = takeWhile digit r'; r'' = dropWhile digit r' in
             if fs = [] then None
             else case r'' of
               [] \<Rightarrow> None
             | d # r3 \<Rightarrow> if d = CHR ''%'' then Some (ds @ CHR ''.'' # fs, r3) else None)
          else None)"

lemma match_percent_shorter:
  assumes "match_percent s = Some (n, r)"
  shows "length r < length s"
proof -
  obtain c r' where s: "dropWhile digit s = c # r'"
    using assms
    by (cases "dropWhile digit s") (simp_all add: match_percent_def Let_def split: if_splits)
  have l1: "length r' < length s"
    using length_dropWhile_le [of digit s] s by simp
  show ?thesis
  proof (cases "c = CHR ''%''")
    case True
    with assms s l1 show ?thesis
      by (simp add: match_percent_def Let_def split: if_splits)
  next
    case False
    with assms s obtain d where r: "dropWhile digit r' = d # r"
      by (auto simp: match_percent_def Let_def split: if_splits list.splits)
    have "length r < length r'"
      using length_dropWhile_le [of digit r'] r by simp
    with l1 show ?thesis by simp
  qed
qed

text \<open>The global replacement scans from the left; after a match it goes on behind the
  match, and the text it has written is not scanned again.\<close>

function percent_rewrite :: "string \<Rightarrow> string" where
  "percent_rewrite [] = []"
| "percent_rewrite (c # cs) =
     (case match_percent (c # cs) of
        Some (n, r) \<Rightarrow> ''('' @ n @ ''/100)'' @ percent_rewrite r
      | None \<Rightarrow> c # percent_rewrite cs)"
  by pat_completeness auto
termination
  by (relation "measure length") (auto dest: match_percent_shorter)

text \<open>The text handed to the evaluator, or the empty string where the function
  returns the empty outcome (lines 185 and 192).\<close>

definition sanitize :: "string \<Rightarrow> string" where
  "sanitize rawExpr =
     (let expr = remove_spaces rawExpr in
      if expr = [] then []
      else let expr = remove_disallowed expr in
        if expr = [] then []
        else percent_rewrite (caret_to_power expr))"

section \<open>Numbers\<close>

text \<open>
  A JavaScript Number is an IEEE 754 double: a finite value is kept as the rational it
  denotes, \<open>Fin 0\<close> is the positive zero, and the negative zero, the two infinities and
  NaN are values of their own.
\<close>

datatype jsnum = NaN | PosInf | NegInf | NegZero | Fin rat

text \<open>\<^verbatim>\<open>Number.isFinite\<close>.\<close>

definition is_finite :: "jsnum \<Rightarrow> bool" where
  "is_finite x = (case x of Fin q \<Rightarrow> True | NegZero \<Rightarrow> True | _ \<Rightarrow> False)"

definition is_zero :: "jsnum \<Rightarrow> bool" where
  "is_zero x = (x = Fin 0 \<or> x = NegZero)"

definition is_infinite :: "jsnum \<Rightarrow> bool" where
  "is_infinite x = (x = PosInf \<or> x = NegInf)"

text \<open>The sign bit, and the mathematical value of a finite number.\<close>

definition negative :: "jsnum \<Rightarrow> bool" where
  "negative x = (case x of NegInf \<Rightarrow> True | NegZero \<Rightarrow> True | Fin q \<Rightarrow> q < 0 | _ \<Rightarrow> False)"

definition real_value :: "jsnum \<Rightarrow> rat" where
  "real_value x = (case x of Fin q \<Rightarrow> q | _ \<Rightarrow> 0)"

definition signed_zero :: "bool \<Rightarrow> jsnum" where
  "signed_zero neg = (if neg then NegZero else Fin 0)"

definition signed_infinity :: "bool \<Rightarrow> jsnum" where
  "signed_infinity neg = (if neg then NegInf else PosInf)"

subsection \<open>Rounding to the nearest double\<close>

definition pow2 :: "int \<Rightarrow> rat" where
  "pow2 e = (if 0 \<le> e then 2 ^ nat e else 1 / 2 ^ nat (- e))"

text \<open>The number of binary digits of a positive integer.\<close>

function bitlen :: "int \<Rightarrow> int" where
  "bitlen n = (if n \<le> 0 then 0 else 1 + bitlen (n div 2))"
  by pat_completeness auto
termination
  by (relation "measure nat") auto

declare bitlen.simps [simp del]

text \<open>For \<open>0 < a\<close>, the integer \<open>k\<close> with \<open>2\<^sup>k \<le> a < 2\<^sup>k\<^sup>+\<^sup>1\<close>.\<close>

definition floor_log2 :: "rat \<Rightarrow> int" where
  "floor_log2 a = (if 1 \<le> a then bitlen \<lfloor>a\<rfloor> - 1 else - bitlen (\<lceil>1 / a\<rceil> - 1))"

definition round_half_even :: "rat \<Rightarrow> int" where
  "round_half_even x =
     (let f = \<lfloor>x\<rfloor>; r = x - of_int f in
      if r < 1 / 2 then f
      else if 1 / 2 < r then f + 1
      else if even f then f else f + 1)"

text \<open>
  The Number value for a rational \<open>q\<close> (round to nearest, ties to even): the
  significand \<open>m\<close> has at most 53 bits and the exponent \<open>e\<close> of its last place is at
  least \<open>-1074\<close>. The rounded magnitude \<open>m * 2\<^sup>e\<close> reaches \<open>2\<^sup>1\<^sup>0\<^sup>2\<^sup>4\<close>, and the
  result is an infinity, when \<open>971 < e\<close>, or \<open>e = 971\<close> and \<open>m = 2\<^sup>5\<^sup>3\<close>. A nonzero \<open>q\<close>
  that rounds to zero keeps its sign.
\<close>

definition rnd :: "rat \<Rightarrow> jsnum" where
  "rnd q =
     (if q = 0 then Fin 0
      else
        let a = \<bar>q\<bar>;
            e = max (floor_log2 a - 52) (- 1074);
            m = round_half_even (a / pow2 e)
        in if 971 < e \<or> (e = 971 \<and> m = 2 ^ 53) then signed_infinity (q < 0)
           else if m = 0 then signed_zero (q < 0)
           else Fin (if 0 < q then of_int m * pow2 e else - (of_int m * pow2 e)))"

subsection \<open>Arithmetic (ECMAScript Number::unaryMinus, add, subtract, multiply, divide, remainder)\<close>

definition js_neg :: "jsnum \<Rightarrow> jsnum" where
  "js_neg x =
     (case x of NaN \<Rightarrow> NaN | PosInf \<Rightarrow> NegInf | NegInf \<Rightarrow> PosInf | NegZero \<Rightarrow> Fin 0
      | Fin q \<Rightarrow> if q = 0 then NegZero else Fin (- q))"

definition js_add :: "jsnum \<Rightarrow> jsnum \<Rightarrow> jsnum" where
  "js_add x y =
     (if x = NaN \<or> y = NaN then NaN
      else if is_infinite x \<and> is_infinite y then (if x = y then x else NaN)
      else if is_infinite x then x
      else if is_infinite y then y
      else if x = NegZero \<and> y = NegZero then NegZero
      else rnd (real_value x + real_value y))"

definition js_sub :: "jsnum \<Rightarrow> jsnum \<Rightarrow> jsnum" where
  "js_sub x y = js_add x (js_neg y)"

definition js_mul :: "jsnum \<Rightarrow> jsnum \<Rightarrow> jsnum" where
  "js_mul x y =
     (if x = NaN \<or> y = NaN then NaN
      else if is_infinite x \<or> is_infinite y then
        (if is_zero x \<or> is_zero y then NaN else signed_infinity (negative x \<noteq> negative y))
      else if is_zero x \<or> is_zero y then signed_zero (negative x \<noteq> negative y)
      else rnd (real_value x * real_value y))"

definition js_div :: "jsnum \<Rightarrow> jsnum \<Rightarrow> jsnum" where
  "js_div x y =
     (if x = NaN \<or> y = NaN then NaN
      else if is_infinite x then
        (if is_infinite y then NaN else signed_infinity (negative x \<noteq> negative y))
      else if is_infinite y then signed_zero (negative x \<noteq> negative y)
      else if is_zero y then
        (if is_zero x then NaN else signed_infinity (negative x \<noteq> negative y))
      else if is_zero x then signed_zero (negative x \<noteq> negative y)
      else rnd (real_value x / real_value y))"

definition truncate :: "rat \<Rightarrow> int" where
  "truncate q = (if 0 \<le> q then \<lfloor>q\<rfloor> else \<lceil>q\<rceil>)"

definition js_rem :: "jsnum \<Rightarrow> jsnum \<Rightarrow> jsnum" where
  "js_rem n d =
     (if n = NaN \<or> d = NaN then NaN
      else if is_infinite n then NaN
      else if is_infinite d then n
      else if is_zero d then NaN
      else if is_zero n then n
      else
        let r = real_value n - real_value d * of_int (truncate (real_value n / real_value d))
        in if r = 0 then signed_zero (negative n) else rnd r)"

subsection \<open>Constants and conversions\<close>

text \<open>\<^verbatim>\<open>Math.PI\<close>, \<^verbatim>\<open>Math.E\<close> and \<^verbatim>\<open>Math.LN10\<close>: the doubles nearest to the constants.\<close>

definition Math_PI :: jsnum where
  "Math_PI = Fin (884279719003555 / 2 ^ 48)"

definition Math_E :: jsnum where
  "Math_E = Fin (6121026514868073 / 2 ^ 51)"

definition Math_LN10 :: jsnum where
  "Math_LN10 = Fin (2592480341699211 / 2 ^ 50)"

text \<open>
  \<^verbatim>\<open>Number(x.toFixed(10))\<close> for a finite \<open>x\<close> (line 254). \<^verbatim>\<open>toFixed(10)\<close> prints
  \<open>n / 10\<^sup>1\<^sup>0\<close> for the integer \<open>n\<close> nearest to \<open>\<bar>x\<bar> * 10\<^sup>1\<^sup>0\<close> (the larger one of two),
  with the sign of a negative \<open>x\<close>, and \<^verbatim>\<open>Number\<close> reads the text back as the
  nearest double. From \<open>10\<^sup>2\<^sup>1\<close> on \<^verbatim>\<open>toFixed\<close> prints the number as \<^verbatim>\<open>String\<close> does,
  which \<^verbatim>\<open>Number\<close> reads back unchanged. The negative zero is printed without a sign.
\<close>

definition round10 :: "jsnum \<Rightarrow> jsnum" where
  "round10 x =
     (case x of
        Fin q \<Rightarrow>
          if 10 ^ 21 \<le> \<bar>q\<bar> then Fin q
          else if q < 0 then js_neg (rnd (of_int \<lfloor>- q * 10 ^ 10 + 1 / 2\<rfloor> / 10 ^ 10))
          else rnd (of_int \<lfloor>q * 10 ^ 10 + 1 / 2\<rfloor> / 10 ^ 10)
      | NegZero \<Rightarrow> Fin 0
      | _ \<Rightarrow> x)"

section \<open>The host\<close>

text \<open>
  What \<^verbatim>\<open>script.js\<close> takes from the JavaScript engine is a parameter of the model:
  the \<^verbatim>\<open>Function\<close> constructor together with the call of the function it builds (a
  syntax error of the body and an exception of the call both end in \<open>Threw\<close>), the
  functions of \<^verbatim>\<open>Math\<close> whose results ECMAScript leaves to the implementation, and the
  conversion of a Number to a string. \<^verbatim>\<open>Math.log10\<close> is optional, as line 229 tests for it.
  The call is a function of the parameter names, the body and the arguments: it is taken
  to leave the session alone. A body that drives the page while it runs is the subject
  of the section on the page below.
\<close>

datatype jsvalue =
    VUndefined
  | VBoolean bool
  | VString string
  | VNumber jsnum
  | VFunction "jsnum \<Rightarrow> jsnum"
  | VObject

datatype completion = Returned jsvalue | Threw

record host =
  Function_call :: "string list \<Rightarrow> string \<Rightarrow> jsvalue list \<Rightarrow> completion"
  Math_sin :: "jsnum \<Rightarrow> jsnum"
  Math_cos :: "jsnum \<Rightarrow> jsnum"
  Math_tan :: "jsnum \<Rightarrow> jsnum"
  Math_log10 :: "(jsnum \<Rightarrow> jsnum) option"
  Math_log :: "jsnum \<Rightarrow> jsnum"
  Math_sqrt :: "jsnum \<Rightarrow> jsnum"
  Number_toString :: "jsnum \<Rightarrow> string"

section \<open>Session state (lines 34 to 37) and display\<close>

datatype angle = DEG | RAD

record calc =
  expression :: string
  lastResult :: "jsnum option"
  angleMode :: angle
  history :: "(string \<times> jsnum) list"
  displayExpression :: string
  displayMain :: string
  errorAnimations :: nat

definition syncDisplay :: "calc \<Rightarrow> calc" where
  "syncDisplay st =
     st\<lparr>displayExpression := (if expression st = [] then '' '' else expression st),
        displayMain := (if expression st = [] then ''0'' else expression st)\<rparr>"

definition clearExpression :: "calc \<Rightarrow> calc" where
  "clearExpression st = syncDisplay (st\<lparr>expression := []\<rparr>)"

definition deleteLastChar :: "calc \<Rightarrow> calc" where
  "deleteLastChar st = syncDisplay (st\<lparr>expression := slice_init (expression st)\<rparr>)"

definition operators :: string where
  "operators = ''+-*/^''"

definition appendToExpression :: "string \<Rightarrow> calc \<Rightarrow> calc" where
  "appendToExpression token st =
     (let lastChar = slice_last (expression st);
          isOp = str_includes operators token;
          lastIsOp = str_includes operators lastChar
      in syncDisplay
           (if isOp \<and> (expression st = [] \<or> lastIsOp)
            then st\<lparr>expression := slice_init (expression st) @ token\<rparr>
            else st\<lparr>expression := expression st @ token\<rparr>))"

definition degToRad :: "jsnum \<Rightarrow> jsnum" where
  "degToRad x = js_div (js_mul x Math_PI) (Fin 180)"

text \<open>The error animation is counted, not drawn.\<close>

definition showErrorAnimation :: "calc \<Rightarrow> calc" where
  "showErrorAnimation st = st\<lparr>errorAnimations := Suc (errorAnimations st)\<rparr>"

section \<open>History (lines 105 to 165)\<close>

definition addToHistory :: "string \<Rightarrow> jsnum \<Rightarrow> calc \<Rightarrow> calc" where
  "addToHistory expr res st =
     (if \<not> is_finite res \<or> expr = [] \<or> trim expr = [] then st
      else
        let h = (expr, res) # history st
        in st\<lparr>history := (if 20 < length h then butlast h else h)\<rparr>)"

definition clearHistory :: "calc \<Rightarrow> calc" where
  "clearHistory st = st\<lparr>history := []\<rparr>"

text \<open>The click listener of the \<open>i\<close>-th rendered entry (lines 147 to 150); there is no
  entry to click beyond the end of the list.\<close>

definition historyClick :: "host \<Rightarrow> nat \<Rightarrow> calc \<Rightarrow> calc" where
  "historyClick h i st =
     (if i < length (history st)
      then syncDisplay (st\<lparr>expression := Number_toString h (snd (history st ! i))\<rparr>)
      else st)"

section \<open>Evaluation (lines 181 to 259)\<close>

datatype eval_result = Empty | Error | Value jsnum

definition param_names :: "string list" where
  "param_names = [''sin'', ''cos'', ''tan'', ''log'', ''ln'', ''sqrt'', ''PI'', ''E'', ''Ans'']"

text \<open>Line 219: the body is the sanitized text between a fixed prefix and suffix.\<close>

definition function_body :: "string \<Rightarrow> string" where
  "function_body expr = CHR 0x22 # ''use strict'' @ CHR 0x22 # ''; return ('' @ expr @ '');''"

definition sinImpl :: "host \<Rightarrow> bool \<Rightarrow> jsnum \<Rightarrow> jsnum" where
  "sinImpl h useDeg x = Math_sin h (if useDeg then degToRad x else x)"

definition cosImpl :: "host \<Rightarrow> bool \<Rightarrow> jsnum \<Rightarrow> jsnum" where
  "cosImpl h useDeg x = Math_cos h (if useDeg then degToRad x else x)"

definition tanImpl :: "host \<Rightarrow> bool \<Rightarrow> jsnum \<Rightarrow> jsnum" where
  "tanImpl h useDeg x = Math_tan h (if useDeg then degToRad x else x)"

definition logImpl :: "host \<Rightarrow> jsnum \<Rightarrow> jsnum" where
  "logImpl h x =
     (case Math_log10 h of Some log10 \<Rightarrow> log10 x | None \<Rightarrow> js_div (Math_log h x) Math_LN10)"

definition lnImpl :: "host \<Rightarrow> jsnum \<Rightarrow> jsnum" where
  "lnImpl h x = Math_log h x"

definition sqrtImpl :: "host \<Rightarrow> jsnum \<Rightarrow> jsnum" where
  "sqrtImpl h x = Math_sqrt h x"

text \<open>Lines 222 to 245: the nine arguments, in the order of the parameters.\<close>

definition call_arguments :: "host \<Rightarrow> calc \<Rightarrow> jsvalue list" where
  "call_arguments h st =
     (let useDeg = (angleMode st = DEG);
          Ans = (case lastResult st of None \<Rightarrow> Fin 0 | Some r \<Rightarrow> r)
      in [VFunction (sinImpl h useDeg), VFunction (cosImpl h useDeg),
          VFunction (tanImpl h useDeg), VFunction (logImpl h), VFunction (lnImpl h),
          VFunction (sqrtImpl h), VNumber Math_PI, VNumber Math_E, VNumber Ans])"

definition evaluateExpression :: "host \<Rightarrow> string \<Rightarrow> calc \<Rightarrow> eval_result \<times> calc" where
  "evaluateExpression h rawExpr st =
     (let expr = remove_spaces rawExpr in
      if expr = [] then (Empty, st)
      else let expr = remove_disallowed expr in
        if expr = [] then (Empty, st)
        else
          let expr = caret_to_power expr;
              expr = percent_rewrite expr
          in case Function_call h param_names (function_body expr) (call_arguments h st) of
               Threw \<Rightarrow> (Error, showErrorAnimation st)
             | Returned result \<Rightarrow>
                 (case result of
                    VNumber x \<Rightarrow>
                      if is_finite x then (Value (round10 x), st)
                      else (Error, showErrorAnimation st)
                  | _ \<Rightarrow> (Error, showErrorAnimation st)))"

section \<open>Keys (lines 265 to 363, 406 to 409)\<close>

definition handleFunction :: "string \<Rightarrow> calc \<Rightarrow> calc" where
  "handleFunction name st =
     (if name \<in> set [''sin'', ''cos'', ''tan'', ''log'', ''ln'', ''sqrt'']
        then syncDisplay (st\<lparr>expression := expression st @ name @ ''(''\<rparr>)
      else if name = ''square''
        then (if expression st = [] then st
              else syncDisplay (st\<lparr>expression := ''('' @ expression st @ '')^2''\<rparr>))
      else if name = ''pi'' then appendToExpression ''PI'' st
      else if name = ''e'' then appendToExpression ''E'' st
      else if name = ''ans''
        then (if lastResult st \<noteq> None then appendToExpression ''Ans'' st else st)
      else st)"

definition separator :: "char \<Rightarrow> bool" where
  "separator c = (c \<in> set ''+-*/^()'')"

text \<open>The last element of \<^verbatim>\<open>expression.split(/[+\-*/^()]/)\<close>: the text behind the last
  separator.\<close>

definition lastPart :: "string \<Rightarrow> string" where
  "lastPart s = rev (takeWhile (\<lambda>c. \<not> separator c) (rev s))"

definition handleAction :: "host \<Rightarrow> string \<Rightarrow> calc \<Rightarrow> calc" where
  "handleAction h action st =
     (if action = ''clear'' then clearExpression st
      else if action = ''delete'' then deleteLastChar st
      else if action = ''equals'' then
        (let exprToEval = (if expression st = [] then displayMain st else expression st);
             (result, st1) = evaluateExpression h exprToEval st
         in case result of
              Value r \<Rightarrow>
                syncDisplay
                  ((addToHistory exprToEval r st1)
                     \<lparr>lastResult := Some r, expression := Number_toString h r\<rparr>)
            | _ \<Rightarrow> syncDisplay st1)
      else if action = ''percent'' then appendToExpression ''%'' st
      else if action = ''dot'' then
        (if str_includes (lastPart (expression st)) ''.'' then st
         else appendToExpression ''.'' st)
      else if action = ''double-zero'' then
        (if expression st = [] then appendToExpression ''0'' st
         else appendToExpression ''00'' st)
      else st)"

definition toggleAngleMode :: "calc \<Rightarrow> calc" where
  "toggleAngleMode st = st\<lparr>angleMode := (if angleMode st = DEG then RAD else DEG)\<rparr>"

text \<open>What the page can do to the session: a key with a value, a function key, an
  action key, a click on a history entry, the button that clears the history and the
  angle toggle. The session starts as lines 34 to 37 and 531 leave it.\<close>

datatype event =
    Key string
  | FunctionKey string
  | ActionKey string
  | HistoryEntry nat
  | ClearHistory
  | AngleToggle

fun step :: "host \<Rightarrow> calc \<Rightarrow> event \<Rightarrow> calc" where
  "step h st (Key v) = appendToExpression v st"
| "step h st (FunctionKey f) = handleFunction f st"
| "step h st (ActionKey a) = handleAction h a st"
| "step h st (HistoryEntry i) = historyClick h i st"
| "step h st ClearHistory = clearHistory st"
| "step h st AngleToggle = toggleAngleMode st"

definition initial :: calc where
  "initial =
     clearExpression
       \<lparr>expression = [], lastResult = None, angleMode = DEG, history = [],
        displayExpression = [], displayMain = [], errorAnimations = 0\<rparr>"

definition run :: "host \<Rightarrow> event list \<Rightarrow> calc" where
  "run h evs = foldl (step h) initial evs"

section \<open>Auxiliary definitions of the statements\<close>

text \<open>Pushing a list of entries to the ledger, first entry first.\<close>

definition push_all :: "(string \<times> jsnum) list \<Rightarrow> calc \<Rightarrow> calc" where
  "push_all es st = foldl (\<lambda>st (e, r). addToHistory e r st) st es"

text \<open>A session whose ledger is full.\<close>

definition full_ledger :: calc where
  "full_ledger = initial\<lparr>history := replicate 20 (''2+2'', Fin 4)\<rparr>"


text \<open>The binary operators of the buffer's invariant, and the invariant: no two of
  them stand side by side.\<close>

definition binary_operator :: "char \<Rightarrow> bool" where
  "binary_operator c = (c \<in> set ''+-*/^'')"

fun no_adjacent_operators :: "string \<Rightarrow> bool" where
  "no_adjacent_operators (a # b # s) =
     (\<not> (binary_operator a \<and> binary_operator b) \<and> no_adjacent_operators (b # s))"
| "no_adjacent_operators s = True"

text \<open>A token that keeps the invariant: one operator, or a text that has no two
  operators side by side and does not start with one.\<close>

definition safe_token :: "string \<Rightarrow> bool" where
  "safe_token t =
     ((length t = 1 \<and> binary_operator (hd t)) \<or>
      (no_adjacent_operators t \<and> (t = [] \<or> \<not> binary_operator (hd t))))"

definition safe_event :: "event \<Rightarrow> bool" where
  "safe_event ev = (case ev of Key t \<Rightarrow> safe_token t | _ \<Rightarrow> True)"

text \<open>A value that is a finite Number.\<close>

definition finite_number :: "jsvalue \<Rightarrow> bool" where
  "finite_number v = (case v of VNumber x \<Rightarrow> is_finite x | _ \<Rightarrow> False)"


text \<open>The main display shows the buffer, or \<^verbatim>\<open>0\<close> for the empty buffer (line 48).\<close>

definition display_synced :: "calc \<Rightarrow> bool" where
  "display_synced st = (displayMain st = (if expression st = [] then ''0'' else expression st))"


text \<open>
  Words of the statements about line 198. No percent sign stands directly behind a
  digit. A numeric literal, as the pattern of line 198 reads it: digits, and optionally
  a dot and digits. A literal in front of a percent sign is maximal behind \<open>pre\<close>
  when no text that ends \<open>pre\<close> extends it to a longer literal.
\<close>

fun no_digit_percent :: "string \<Rightarrow> bool" where
  "no_digit_percent (a # b # s) = (\<not> (digit a \<and> b = CHR ''%'') \<and> no_digit_percent (b # s))"
| "no_digit_percent s = True"

definition numeric_literal :: "string \<Rightarrow> bool" where
  "numeric_literal n =
     (takeWhile digit n \<noteq> [] \<and>
      (case dropWhile digit n of
         [] \<Rightarrow> True
       | c # fs \<Rightarrow> c = CHR ''.'' \<and> fs \<noteq> [] \<and> list_all digit fs))"

definition maximal_literal :: "string \<Rightarrow> string \<Rightarrow> bool" where
  "maximal_literal pre n =
     (numeric_literal n \<and> list_all (\<lambda>u. u = [] \<or> \<not> numeric_literal (u @ n)) (suffixes pre))"

text \<open>The invariant of the session: the buffer has no two operators side by side,
  and the results in the ledger are finite.\<close>

definition session_invariant :: "calc \<Rightarrow> bool" where
  "session_invariant st =
     (no_adjacent_operators (expression st) \<and> list_all (\<lambda>(e, r). is_finite r) (history st))"


text \<open>The sine of the engine at the Number \<open>x\<close> is a Number within \<open>eps\<close> of the
  sine of \<open>x\<close>.\<close>

definition sine_within :: "host \<Rightarrow> jsnum \<Rightarrow> real \<Rightarrow> bool" where
  "sine_within h x eps =
     (case x of
        Fin q \<Rightarrow>
          (case Math_sin h x of
             Fin y \<Rightarrow> \<bar>of_rat y - sin (of_rat q)\<bar> \<le> eps
           | _ \<Rightarrow> False)
      | _ \<Rightarrow> False)"


section \<open>A fragment of ECMAScript expressions\<close>

text \<open>
  The calculator hands its text to the engine (line 209). What the engine does with the
  texts the calculator's keys produce is fixed by the ECMAScript specification; this
  section writes down that part of it: decimal literals, names, the unary and binary
  operators \<^verbatim>\<open>+ - * / %\<close>, parentheses and calls with one argument, on Numbers and
  the functions of one Number that \<^verbatim>\<open>script.js\<close> passes in. Every function here answers
  \<open>None\<close> outside that part: \<open>None\<close> says nothing about what the engine does.
\<close>

datatype token =
    TNum jsnum | TId string | TPlus | TMinus | TStar | TSlash | TPercent | TLParen | TRParen

definition digit_value :: "char \<Rightarrow> int" where
  "digit_value c = of_char c - 48"

definition digits_value :: "string \<Rightarrow> int" where
  "digits_value ds = foldl (\<lambda>n c. 10 * n + digit_value c) 0 ds"

text \<open>
  The value of the literal with integer part \<open>ds\<close> and fraction \<open>fs\<close>. A literal of
  more than 20 digits is left out (ECMAScript lets the engine round it in two ways), and
  so is an integer part with a leading zero, which strict code refuses.
\<close>

definition literal_value :: "string \<Rightarrow> string \<Rightarrow> jsnum option" where
  "literal_value ds fs =
     (if 20 < length ds + length fs \<or> (1 < length ds \<and> hd ds = CHR ''0'') then None
      else Some (rnd (of_int (digits_value (ds @ fs)) / 10 ^ length fs)))"

text \<open>
  A literal at the start of a text: its value and the rest of the text. A literal must
  not be followed by a letter, a digit or a dot (an exponent, a suffix, and a literal that
  ends in a dot are outside the fragment).
\<close>

definition scan_number :: "string \<Rightarrow> (jsnum \<times> string) option" where
  "scan_number s =
     (let ds = takeWhile digit s; r = dropWhile digit s in
      if ds = [] then None
      else case r of
        [] \<Rightarrow> map_option (\<lambda>x. (x, [])) (literal_value ds [])
      | d # r' \<Rightarrow>
          if d = CHR ''.'' then
            (let fs = takeWhile digit r'; r2 = dropWhile digit r' in
             if fs = [] \<or> (r2 \<noteq> [] \<and> (letter (hd r2) \<or> hd r2 = CHR ''.'')) then None
             else map_option (\<lambda>x. (x, r2)) (literal_value ds fs))
          else if letter d then None
          else map_option (\<lambda>x. (x, r)) (literal_value ds []))"

lemma scan_number_shorter:
  assumes "scan_number s = Some (x, r)"
  shows "length r < length s"
proof -
  have ds: "takeWhile digit s \<noteq> []"
    using assms by (auto simp: scan_number_def Let_def split: if_splits)
  have "length (takeWhile digit s) + length (dropWhile digit s) = length s"
    by (metis length_append takeWhile_dropWhile_id)
  with ds have l0: "length (dropWhile digit s) < length s"
    by (cases "takeWhile digit s") simp_all
  have "length r \<le> length (dropWhile digit s)"
  proof (cases "dropWhile digit s")
    case Nil
    with assms show ?thesis
      by (auto simp: scan_number_def Let_def split: if_splits)
  next
    case (Cons d r')
    have "length (dropWhile digit r') \<le> length r'" by (rule length_dropWhile_le)
    with assms show ?thesis
      unfolding scan_number_def Let_def Cons by (auto split: if_splits)
  qed
  with l0 show ?thesis by simp
qed

text \<open>
  The tokens of a text without white space. \<^verbatim>\<open>++\<close>, \<^verbatim>\<open>--\<close> and \<^verbatim>\<open>**\<close> are tokens of
  their own, and \<^verbatim>\<open>//\<close> and \<^verbatim>\<open>/*\<close> open a comment: all of these are outside the
  fragment, as is every character not named here.
\<close>

definition name_char :: "char \<Rightarrow> bool" where
  "name_char c = (letter c \<or> digit c)"

function lex :: "string \<Rightarrow> token list option" where
  "lex [] = Some []"
| "lex (c # cs) =
     (if digit c then
        (case scan_number (c # cs) of
           None \<Rightarrow> None
         | Some (x, r) \<Rightarrow> map_option ((#) (TNum x)) (lex r))
      else if letter c then
        map_option ((#) (TId (c # takeWhile name_char cs))) (lex (dropWhile name_char cs))
      else if c = CHR ''+'' then
        (if cs \<noteq> [] \<and> hd cs = CHR ''+'' then None else map_option ((#) TPlus) (lex cs))
      else if c = CHR ''-'' then
        (if cs \<noteq> [] \<and> hd cs = CHR ''-'' then None else map_option ((#) TMinus) (lex cs))
      else if c = CHR ''*'' then
        (if cs \<noteq> [] \<and> hd cs = CHR ''*'' then None else map_option ((#) TStar) (lex cs))
      else if c = CHR ''/'' then
        (if cs \<noteq> [] \<and> (hd cs = CHR ''/'' \<or> hd cs = CHR ''*'') then None
         else map_option ((#) TSlash) (lex cs))
      else if c = CHR ''%'' then map_option ((#) TPercent) (lex cs)
      else if c = CHR ''('' then map_option ((#) TLParen) (lex cs)
      else if c = CHR '')'' then map_option ((#) TRParen) (lex cs)
      else None)"
  by pat_completeness auto
termination
proof (relation "measure length", goal_cases)
  case (3 c cs)
  have "length (dropWhile name_char cs) \<le> length cs"
    by (rule length_dropWhile_le)
  then show ?case by simp
qed (auto dest: scan_number_shorter)

datatype binop = Add | Sub | Mul | Div | Rem

datatype expr =
    Num jsnum
  | Ident string
  | Neg expr
  | Pos expr
  | Bin binop expr expr
  | Call expr expr

text \<open>The binary operator of a token and its precedence.\<close>

definition binop_of :: "token \<Rightarrow> (binop \<times> nat) option" where
  "binop_of t =
     (case t of TPlus \<Rightarrow> Some (Add, 1) | TMinus \<Rightarrow> Some (Sub, 1) | TStar \<Rightarrow> Some (Mul, 2)
      | TSlash \<Rightarrow> Some (Div, 2) | TPercent \<Rightarrow> Some (Rem, 2) | _ \<Rightarrow> None)"

text \<open>
  The parser: a unary expression is signs before a primary expression and its calls;
  a binary expression of level \<open>p\<close> is a unary expression and then the operators of
  precedence \<open>p\<close> or more with their right operands, grouped to the left. The four
  mutually recursive parsers are one function of the parser to run; its first argument
  bounds the depth of the recursion, and \<open>None\<close> is also the answer when it is used up.
\<close>

datatype parser =
    Unary
  | Calls expr
  | Binary nat
  | Operators nat expr

primrec parse_at :: "nat \<Rightarrow> parser \<Rightarrow> token list \<Rightarrow> (expr \<times> token list) option" where
  "parse_at 0 p ts = None"
| "parse_at (Suc n) p ts =
     (case p of
        Unary \<Rightarrow>
          (case ts of
             TPlus # r \<Rightarrow> map_option (apfst Pos) (parse_at n Unary r)
           | TMinus # r \<Rightarrow> map_option (apfst Neg) (parse_at n Unary r)
           | TNum x # r \<Rightarrow> parse_at n (Calls (Num x)) r
           | TId s # r \<Rightarrow> parse_at n (Calls (Ident s)) r
           | TLParen # r \<Rightarrow>
               (case parse_at n (Binary 0) r of
                  Some (e, TRParen # r') \<Rightarrow> parse_at n (Calls e) r'
                | _ \<Rightarrow> None)
           | _ \<Rightarrow> None)
      | Calls f \<Rightarrow>
          (case ts of
             TLParen # r \<Rightarrow>
               (case parse_at n (Binary 0) r of
                  Some (a, TRParen # r') \<Rightarrow> parse_at n (Calls (Call f a)) r'
                | _ \<Rightarrow> None)
           | _ \<Rightarrow> Some (f, ts))
      | Binary q \<Rightarrow>
          (case parse_at n Unary ts of
             Some (l, r) \<Rightarrow> parse_at n (Operators q l) r
           | None \<Rightarrow> None)
      | Operators q l \<Rightarrow>
          (case ts of
             [] \<Rightarrow> Some (l, [])
           | t # r \<Rightarrow>
               (case binop_of t of
                  None \<Rightarrow> Some (l, ts)
                | Some (oper, q') \<Rightarrow>
                    if q \<le> q' then
                      (case parse_at n (Binary (Suc q')) r of
                         Some (rhs, r') \<Rightarrow> parse_at n (Operators q (Bin oper l rhs)) r'
                       | None \<Rightarrow> None)
                    else Some (l, ts))))"

text \<open>A whole text is one expression.\<close>

definition parse :: "string \<Rightarrow> expr option" where
  "parse s =
     (case lex s of
        None \<Rightarrow> None
      | Some ts \<Rightarrow>
          (case parse_at (6 * length ts + 6) (Binary 0) ts of
             Some (e, []) \<Rightarrow> Some e
           | _ \<Rightarrow> None))"

text \<open>
  A name is a parameter of the function, or else a property of the global object. The
  properties \<^verbatim>\<open>Infinity\<close> and \<^verbatim>\<open>NaN\<close> have the same value in every engine, and no script
  can change them; the other names depend on the page and are outside the fragment.
\<close>

definition global_value :: "string \<Rightarrow> jsvalue option" where
  "global_value name =
     (if name = ''Infinity'' then Some (VNumber PosInf)
      else if name = ''NaN'' then Some (VNumber NaN)
      else None)"

definition resolve :: "string list \<Rightarrow> jsvalue list \<Rightarrow> string \<Rightarrow> jsvalue option" where
  "resolve params args name =
     (if name \<in> set params then map_of (zip params args) name else global_value name)"

definition apply_binop :: "binop \<Rightarrow> jsnum \<Rightarrow> jsnum \<Rightarrow> jsnum" where
  "apply_binop oper x y =
     (case oper of Add \<Rightarrow> js_add x y | Sub \<Rightarrow> js_sub x y | Mul \<Rightarrow> js_mul x y
      | Div \<Rightarrow> js_div x y | Rem \<Rightarrow> js_rem x y)"

fun eval_expr :: "(string \<Rightarrow> jsvalue option) \<Rightarrow> expr \<Rightarrow> jsvalue option" where
  "eval_expr env (Num x) = Some (VNumber x)"
| "eval_expr env (Ident s) = env s"
| "eval_expr env (Neg e) =
     (case eval_expr env e of Some (VNumber x) \<Rightarrow> Some (VNumber (js_neg x)) | _ \<Rightarrow> None)"
| "eval_expr env (Pos e) =
     (case eval_expr env e of Some (VNumber x) \<Rightarrow> Some (VNumber x) | _ \<Rightarrow> None)"
| "eval_expr env (Bin oper a b) =
     (case (eval_expr env a, eval_expr env b) of
        (Some (VNumber x), Some (VNumber y)) \<Rightarrow> Some (VNumber (apply_binop oper x y))
      | _ \<Rightarrow> None)"
| "eval_expr env (Call f a) =
     (case (eval_expr env f, eval_expr env a) of
        (Some (VFunction g), Some (VNumber x)) \<Rightarrow> Some (VNumber (g x))
      | _ \<Rightarrow> None)"

text \<open>The value the function returns whose parameters are \<open>params\<close> and whose body
  returns the expression \<open>text\<close>, called with \<open>args\<close>.\<close>

definition es_return :: "string list \<Rightarrow> string \<Rightarrow> jsvalue list \<Rightarrow> jsvalue option" where
  "es_return params text args =
     (case parse text of None \<Rightarrow> None | Some e \<Rightarrow> eval_expr (resolve params args) e)"

text \<open>An engine implements ECMAScript on the fragment.\<close>

definition implements_fragment :: "host \<Rightarrow> bool" where
  "implements_fragment h =
     (\<forall>text args v.
        es_return param_names text args = Some v \<longrightarrow>
        Function_call h param_names (function_body text) args = Returned v)"

text \<open>
  \<^verbatim>\<open>String(x)\<close> for a finite Number: ECMAScript fixes the form of the text (an optional
  minus sign, digits with an optional fraction, an optional exponent with its sign)
  and prints an integer below \<open>2\<^sup>5\<^sup>3\<close> in magnitude as its decimal digits; both zeros
  print as \<^verbatim>\<open>0\<close>. The digits of other numbers are left to the engine.
\<close>

definition digit_char :: "nat \<Rightarrow> char" where
  "digit_char d = ''0123456789'' ! d"

fun digits_of :: "nat \<Rightarrow> string" where
  "digits_of n = (if n < 10 then [digit_char n] else digits_of (n div 10) @ [digit_char (n mod 10)])"

declare digits_of.simps [simp del]

definition integer_text :: "int \<Rightarrow> string" where
  "integer_text n = (if n < 0 then CHR ''-'' # digits_of (nat (- n)) else digits_of (nat n))"

definition number_text :: "string \<Rightarrow> bool" where
  "number_text s =
     (\<exists>sg ip fp ex.
        s = sg @ ip @ fp @ ex \<and>
        (sg = [] \<or> sg = ''-'') \<and>
        ip \<noteq> [] \<and> list_all digit ip \<and>
        (fp = [] \<or> (\<exists>fs. fp = CHR ''.'' # fs \<and> fs \<noteq> [] \<and> list_all digit fs)) \<and>
        (ex = [] \<or>
         (\<exists>c ds. ex = CHR ''e'' # c # ds \<and> (c = CHR ''+'' \<or> c = CHR ''-'') \<and>
                  ds \<noteq> [] \<and> list_all digit ds)))"

definition toString_conforms :: "host \<Rightarrow> bool" where
  "toString_conforms h =
     ((\<forall>x. is_finite x \<longrightarrow> number_text (Number_toString h x)) \<and>
      (\<forall>n. \<bar>n\<bar> < 2 ^ 53 \<longrightarrow> Number_toString h (Fin (of_int n)) = integer_text n) \<and>
      Number_toString h NegZero = ''0'')"

subsection \<open>An engine for the examples\<close>

text \<open>
  A host that implements the fragment and throws on every other text. Of its
  \<^verbatim>\<open>Math\<close> functions only the sine at one argument is filled in, with the double an
  engine returns there. It prints an integer as its digits; for another number it
  prints the integer part and one digit of the fraction, which is not what an engine
  prints: the examples use it at integers only.
\<close>

definition body_text :: "string \<Rightarrow> string option" where
  "body_text body =
     (let t = take (length body - 24) (drop 22 body)
      in if function_body t = body then Some t else None)"

definition example_toString :: "jsnum \<Rightarrow> string" where
  "example_toString x =
     (case x of
        NaN \<Rightarrow> ''NaN''
      | PosInf \<Rightarrow> ''Infinity''
      | NegInf \<Rightarrow> ''-Infinity''
      | NegZero \<Rightarrow> ''0''
      | Fin q \<Rightarrow>
          (if q < 0 then ''-'' else []) @ digits_of (nat \<lfloor>\<bar>q\<bar>\<rfloor>) @
          (if \<bar>q\<bar> = of_int \<lfloor>\<bar>q\<bar>\<rfloor> then []
           else [CHR ''.'', digit_char (nat \<lfloor>(\<bar>q\<bar> - of_int \<lfloor>\<bar>q\<bar>\<rfloor>) * 10\<rfloor>)]))"

definition example_host :: host where
  "example_host =
     \<lparr>Function_call =
        (\<lambda>params body args.
           case body_text body of
             None \<Rightarrow> Threw
           | Some t \<Rightarrow>
               if params = param_names then
                 (case es_return params t args of Some v \<Rightarrow> Returned v | None \<Rightarrow> Threw)
               else Threw),
      Math_sin =
        (\<lambda>x. if x = Fin (4716158501352293 / 2 ^ 53) then Fin (9007199254740991 / 2 ^ 54)
             else NaN),
      Math_cos = (\<lambda>x. NaN),
      Math_tan = (\<lambda>x. NaN),
      Math_log10 = None,
      Math_log = (\<lambda>x. NaN),
      Math_sqrt = (\<lambda>x. NaN),
      Number_toString = example_toString\<rparr>"

section \<open>The page\<close>

text \<open>
  The body of line 219 is ordinary code that runs in the global scope of the page.
  Besides returning a value it can call what the global object offers, and a call
  such as \<^verbatim>\<open>click()\<close> on a button of the page runs the listeners of lines 517 to 527
  before the body returns. \<^const>\<open>evaluateExpression\<close> above takes the call to leave the
  session alone, as it does for every text of the fragment; here the call comes with
  the handler events that the body dispatches while it runs, in the state the session
  is in. A commit dispatched from inside an evaluation would evaluate again before the
  first evaluation returns: that is outside the model, and the answer is \<open>None\<close>.
\<close>

record page =
  engine :: host
  dispatched :: "string \<Rightarrow> calc \<Rightarrow> event list"

text \<open>Lines 181 to 259 on a page: the dispatched events have run when the call returns.\<close>

definition evaluateExpression_on :: "page \<Rightarrow> string \<Rightarrow> calc \<Rightarrow> (eval_result \<times> calc) option" where
  "evaluateExpression_on p rawExpr st =
     (let expr = remove_spaces rawExpr in
      if expr = [] then Some (Empty, st)
      else let expr = remove_disallowed expr in
        if expr = [] then Some (Empty, st)
        else
          let expr = caret_to_power expr;
              expr = percent_rewrite expr;
              evs = dispatched p (function_body expr) st
          in if ActionKey ''equals'' \<in> set evs then None
             else
               let st1 = foldl (step (engine p)) st evs
               in case Function_call (engine p) param_names (function_body expr)
                         (call_arguments (engine p) st) of
                    Threw \<Rightarrow> Some (Error, showErrorAnimation st1)
                  | Returned result \<Rightarrow>
                      (case result of
                         VNumber x \<Rightarrow>
                           if is_finite x then Some (Value (round10 x), st1)
                           else Some (Error, showErrorAnimation st1)
                       | _ \<Rightarrow> Some (Error, showErrorAnimation st1)))"

text \<open>Lines 320 to 336 on a page.\<close>

definition commit_on :: "page \<Rightarrow> calc \<Rightarrow> calc option" where
  "commit_on p st =
     (let exprToEval = (if expression st = [] then displayMain st else expression st)
      in case evaluateExpression_on p exprToEval st of
           None \<Rightarrow> None
         | Some (result, st1) \<Rightarrow>
             Some
               (case result of
                  Value r \<Rightarrow>
                    syncDisplay
                      ((addToHistory exprToEval r st1)
                         \<lparr>lastResult := Some r, expression := Number_toString (engine p) r\<rparr>)
                | _ \<Rightarrow> syncDisplay st1))"

text \<open>
  A page for the example: the first key of its keypad has the value \<^verbatim>\<open>7\<close>. The text
  \<^verbatim>\<open>keypad.children.item(0).click()\<close> reaches the keypad through the global object,
  clicks that key and has the value \<^verbatim>\<open>undefined\<close>; on every other text the page is
  the example host and dispatches nothing.
\<close>

definition click_text :: string where
  "click_text = ''keypad.children.item(0).click()''"

definition example_page :: page where
  "example_page =
     \<lparr>engine =
        example_host
          \<lparr>Function_call :=
             (\<lambda>params body args.
                if body = function_body click_text then Returned VUndefined
                else Function_call example_host params body args)\<rparr>,
      dispatched = (\<lambda>body st. if body = function_body click_text then [Key ''7''] else [])\<rparr>"

section \<open>The history ledger\<close>

lemma history_syncDisplay [simp]: "history (syncDisplay st) = history st"
  by (simp add: syncDisplay_def)

lemma history_appendToExpression [simp]: "history (appendToExpression t st) = history st"
  by (simp add: appendToExpression_def Let_def)

lemma history_handleFunction [simp]: "history (handleFunction f st) = history st"
  by (simp add: handleFunction_def)

lemma evaluateExpression_state:
  "snd (evaluateExpression h e st) =
     (if fst (evaluateExpression h e st) = Error then showErrorAnimation st else st)"
  by (simp add: evaluateExpression_def Let_def split: completion.split jsvalue.split)

lemma history_showErrorAnimation [simp]: "history (showErrorAnimation st) = history st"
  by (simp add: showErrorAnimation_def)

lemma history_evaluateExpression [simp]:
  "history (snd (evaluateExpression h e st)) = history st"
  by (simp add: evaluateExpression_state)

lemma length_addToHistory:
  "length (history st) \<le> 20 \<Longrightarrow> length (history (addToHistory e r st)) \<le> 20"
  by (simp add: addToHistory_def Let_def)

lemma length_history_handleAction:
  "length (history st) \<le> 20 \<Longrightarrow> length (history (handleAction h a st)) \<le> 20"
  by (auto simp: handleAction_def Let_def clearExpression_def deleteLastChar_def
      split_beta length_addToHistory split: eval_result.split)

lemma length_history_step:
  "length (history st) \<le> 20 \<Longrightarrow> length (history (step h st ev)) \<le> 20"
  by (cases ev)
    (simp_all add: length_history_handleAction historyClick_def clearHistory_def
      toggleAngleMode_def)

lemma length_history_foldl:
  "length (history st) \<le> 20 \<Longrightarrow> length (history (foldl (step h) st evs)) \<le> 20"
  by (induction evs arbitrary: st) (simp_all add: length_history_step)

lemma length_history_run: "length (history (run h evs)) \<le> 20"
  unfolding run_def
  by (rule length_history_foldl) (simp add: initial_def clearExpression_def)

lemma addToHistory_push:
  assumes "is_finite res" "trim expr \<noteq> []"
  shows "history (addToHistory expr res st) =
           (if length (history st) < 20 then (expr, res) # history st
            else (expr, res) # butlast (history st))"
proof -
  have "expr \<noteq> []" using assms(2) by (auto simp: trim_def)
  with assms show ?thesis
    by (cases "history st") (auto simp: addToHistory_def Let_def)
qed

lemma take_append_take: "take n (xs @ take n ys) = take n (xs @ ys)"
  by (induction xs arbitrary: n) (simp_all add: take_Cons')

lemma addToHistory_take:
  assumes "is_finite res" "trim expr \<noteq> []" "length (history st) \<le> 20"
  shows "history (addToHistory expr res st) = take 20 ((expr, res) # history st)"
proof (cases "length (history st) < 20")
  case True
  with assms show ?thesis by (simp add: addToHistory_push)
next
  case False
  with assms(3) have "length (history st) = 20" by simp
  then have "take 19 (history st) = butlast (history st)"
    by (simp add: butlast_conv_take)
  with assms False show ?thesis by (simp add: addToHistory_push)
qed

lemma push_all_take:
  "list_all (\<lambda>(e, r). is_finite r \<and> trim e \<noteq> []) es \<Longrightarrow> length (history st) \<le> 20 \<Longrightarrow>
   history (push_all es st) = take 20 (rev es @ history st)"
proof (induction es arbitrary: st)
  case Nil
  then show ?case by (simp add: push_all_def)
next
  case (Cons x es)
  obtain e r where x: "x = (e, r)" by (cases x)
  from Cons.prems x have v: "is_finite r" "trim e \<noteq> []" and rest: "list_all (\<lambda>(e, r). is_finite r \<and> trim e \<noteq> []) es"
    by simp_all
  have "history (push_all (x # es) st) = history (push_all es (addToHistory e r st))"
    by (simp add: push_all_def x)
  also have "\<dots> = take 20 (rev es @ history (addToHistory e r st))"
    using rest Cons.prems(2) by (intro Cons.IH) (simp_all add: length_addToHistory)
  also have "\<dots> = take 20 (rev es @ take 20 ((e, r) # history st))"
    using v Cons.prems(2) by (simp add: addToHistory_take)
  also have "\<dots> = take 20 (rev es @ (e, r) # history st)"
    by (rule take_append_take)
  also have "\<dots> = take 20 (rev (x # es) @ history st)"
    by (simp add: x)
  finally show ?case .
qed


section \<open>The percent rewrite\<close>

lemma percent_not_digit [simp]: "\<not> digit CHR ''%''" "\<not> digit CHR ''.''" "\<not> digit CHR ''(''" "\<not> digit CHR '')''"
  by (simp_all add: digit_def)

lemma numeric_literal_iff:
  "numeric_literal n \<longleftrightarrow>
     (\<exists>ds. ds \<noteq> [] \<and> list_all digit ds \<and>
        (n = ds \<or> (\<exists>fs. fs \<noteq> [] \<and> list_all digit fs \<and> n = ds @ CHR ''.'' # fs)))"
  (is "?L \<longleftrightarrow> ?R")
proof
  assume l: ?L
  let ?ds = "takeWhile digit n"
  have n: "n = ?ds @ dropWhile digit n" by simp
  have ds: "?ds \<noteq> []" "list_all digit ?ds"
    using l by (auto simp: numeric_literal_def list_all_iff dest: set_takeWhileD)
  show ?R
  proof (cases "dropWhile digit n")
    case Nil
    with n have "n = ?ds" by simp
    with ds show ?thesis by metis
  next
    case (Cons c fs)
    with l have "c = CHR ''.''" "fs \<noteq> []" "list_all digit fs"
      by (simp_all add: numeric_literal_def)
    moreover from n Cons have "n = ?ds @ c # fs" by simp
    ultimately show ?thesis using ds by metis
  qed
next
  assume ?R
  then obtain ds where ds: "ds \<noteq> []" "list_all digit ds"
    and n: "n = ds \<or> (\<exists>fs. fs \<noteq> [] \<and> list_all digit fs \<and> n = ds @ CHR ''.'' # fs)"
    by blast
  from n show ?L
  proof
    assume nd: "n = ds"
    have tw: "takeWhile digit ds = ds" "dropWhile digit ds = []"
      using ds by (simp_all add: list_all_iff)
    show ?thesis
      unfolding numeric_literal_def nd tw using ds by simp
  next
    assume "\<exists>fs. fs \<noteq> [] \<and> list_all digit fs \<and> n = ds @ CHR ''.'' # fs"
    then obtain fs where fs: "fs \<noteq> []" "list_all digit fs" "n = ds @ CHR ''.'' # fs" by blast
    have "takeWhile digit n = ds" "dropWhile digit n = CHR ''.'' # fs"
      using ds fs by (simp_all add: list_all_iff takeWhile_append2 dropWhile_append2)
    with ds fs show ?thesis by (simp add: numeric_literal_def)
  qed
qed

lemma match_percent_iff:
  "match_percent s = Some (n, r) \<longleftrightarrow> numeric_literal n \<and> s = n @ CHR ''%'' # r"
  (is "?L \<longleftrightarrow> ?R")
proof
  assume l: ?L
  let ?ds = "takeWhile digit s"
  have s: "s = ?ds @ dropWhile digit s" by simp
  have ds: "?ds \<noteq> []" "list_all digit ?ds"
    using l by (auto simp: match_percent_def Let_def list_all_iff split: if_splits dest: set_takeWhileD)
  from l obtain c r' where c: "dropWhile digit s = c # r'"
    by (cases "dropWhile digit s") (simp_all add: match_percent_def Let_def split: if_splits)
  show ?R
  proof (cases "c = CHR ''%''")
    case True
    with l c ds have "n = ?ds" "r = r'"
      unfolding match_percent_def Let_def c by simp_all
    with s c True ds show ?thesis
      by (metis numeric_literal_iff)
  next
    case False
    let ?fs = "takeWhile digit r'"
    from False l c ds have dot: "c = CHR ''.''" and fs: "?fs \<noteq> []"
      and rest: "dropWhile digit r' = CHR ''%'' # r" and n: "n = ?ds @ CHR ''.'' # ?fs"
      unfolding match_percent_def Let_def c
      by (auto split: if_splits list.splits)
    have "list_all digit ?fs" by (auto simp: list_all_iff dest: set_takeWhileD)
    with ds fs n have "numeric_literal n" by (metis numeric_literal_iff)
    moreover have "r' = ?fs @ dropWhile digit r'" by simp
    with s c dot rest n have "s = n @ CHR ''%'' # r" by (metis append.assoc append_Cons)
    ultimately show ?thesis by simp
  qed
next
  assume r: ?R
  then obtain ds where ds: "ds \<noteq> []" "list_all digit ds"
    and n: "n = ds \<or> (\<exists>fs. fs \<noteq> [] \<and> list_all digit fs \<and> n = ds @ CHR ''.'' # fs)"
    by (auto simp: numeric_literal_iff)
  from n show ?L
  proof
    assume "n = ds"
    with r have s: "s = ds @ CHR ''%'' # r" by simp
    have "takeWhile digit s = ds" "dropWhile digit s = CHR ''%'' # r"
      using ds by (simp_all add: s list_all_iff takeWhile_append2 dropWhile_append2)
    with ds \<open>n = ds\<close> show ?thesis by (simp add: match_percent_def)
  next
    assume "\<exists>fs. fs \<noteq> [] \<and> list_all digit fs \<and> n = ds @ CHR ''.'' # fs"
    then obtain fs where fs: "fs \<noteq> []" "list_all digit fs" "n = ds @ CHR ''.'' # fs" by blast
    with r have s: "s = ds @ CHR ''.'' # fs @ CHR ''%'' # r" by simp
    have "takeWhile digit s = ds" "dropWhile digit s = CHR ''.'' # fs @ CHR ''%'' # r"
      using ds by (simp_all add: s list_all_iff takeWhile_append2 dropWhile_append2)
    moreover have "takeWhile digit (fs @ CHR ''%'' # r) = fs" "dropWhile digit (fs @ CHR ''%'' # r) = CHR ''%'' # r"
      using fs by (simp_all add: list_all_iff takeWhile_append2 dropWhile_append2)
    ultimately show ?thesis using ds fs by (simp add: match_percent_def)
  qed
qed

lemma numeric_literal_chars:
  assumes "numeric_literal n"
  shows "n \<noteq> []" "digit (last n)" "CHR ''%'' \<notin> set n"
proof -
  from assms obtain ds where ds: "ds \<noteq> []" "list_all digit ds"
    and n: "n = ds \<or> (\<exists>fs. fs \<noteq> [] \<and> list_all digit fs \<and> n = ds @ CHR ''.'' # fs)"
    by (auto simp: numeric_literal_iff)
  from n ds show "n \<noteq> []" by auto
  from n ds show "digit (last n)" by (auto simp: list_all_iff)
  have "CHR ''%'' \<notin> set xs" if "list_all digit xs" for xs
    using that percent_not_digit(1) by (metis list_all_iff)
  with n ds show "CHR ''%'' \<notin> set n" by auto
qed

lemma first_percent:
  assumes "pre @ v @ CHR ''%'' # post = m @ CHR ''%'' # r"
    and "CHR ''%'' \<notin> set m" "CHR ''%'' \<notin> set v"
  shows "(m = pre @ v \<and> r = post) \<or> (\<exists>r'. pre = m @ CHR ''%'' # r')"
proof -
  from assms(1) have "(pre @ v) @ CHR ''%'' # post = m @ CHR ''%'' # r" by simp
  then consider us where "pre @ v = m @ us" "us @ CHR ''%'' # post = CHR ''%'' # r"
    | us where "(pre @ v) @ us = m" "CHR ''%'' # post = us @ CHR ''%'' # r"
    unfolding append_eq_append_conv2 by blast
  then show ?thesis
  proof cases
    case 1
    show ?thesis
    proof (cases us)
      case Nil
      with 1 show ?thesis by simp
    next
      case (Cons a us')
      with 1 have pv: "pre @ v = m @ CHR ''%'' # us'" by simp
      then consider ws where "pre = m @ ws" "ws @ v = CHR ''%'' # us'"
        | ws where "pre @ ws = m" "v = ws @ CHR ''%'' # us'"
        unfolding append_eq_append_conv2 by blast
      then show ?thesis
      proof cases
        case 1
        with assms(3) show ?thesis by (cases ws) auto
      next
        case 2
        with assms(3) show ?thesis by simp
      qed
    qed
  next
    case 2
    with assms(2) show ?thesis by (cases us) auto
  qed
qed

lemma match_percent_append:
  "match_percent u = Some (m, r) \<Longrightarrow> match_percent (u @ t) = Some (m, r @ t)"
  by (simp add: match_percent_iff)

lemma percent_rewrite_append:
  assumes "\<And>u m r. u \<noteq> [] \<Longrightarrow> suffix u pre \<Longrightarrow> match_percent (u @ t) = Some (m, r) \<Longrightarrow>
             \<exists>r'. match_percent u = Some (m, r')"
  shows "percent_rewrite (pre @ t) = percent_rewrite pre @ percent_rewrite t"
  using assms
proof (induction pre rule: percent_rewrite.induct)
  case 1
  show ?case by simp
next
  case (2 c cs)
  show ?case
  proof (cases "match_percent (c # cs)")
    case None
    have "match_percent ((c # cs) @ t) = None"
    proof (rule ccontr)
      assume "match_percent ((c # cs) @ t) \<noteq> None"
      then obtain m r where "match_percent ((c # cs) @ t) = Some (m, r)" by auto
      with "2.prems" [of "c # cs" m r] None show False by simp
    qed
    moreover have "percent_rewrite (cs @ t) = percent_rewrite cs @ percent_rewrite t"
    proof (rule "2.IH"(1) [OF None])
      fix u m r
      assume "u \<noteq> []" "suffix u cs" "match_percent (u @ t) = Some (m, r)"
      then show "\<exists>r'. match_percent u = Some (m, r')"
        by (intro "2.prems") (auto simp: suffix_Cons)
    qed
    ultimately show ?thesis using None by simp
  next
    case (Some a)
    obtain m r where a: "a = (m, r)" by (cases a)
    with Some have s: "c # cs = m @ CHR ''%'' # r"
      by (simp add: match_percent_iff)
    have ctx: "match_percent ((c # cs) @ t) = Some (m, r @ t)"
      using match_percent_append [of "c # cs" m r t] Some a by simp
    have "percent_rewrite (r @ t) = percent_rewrite r @ percent_rewrite t"
    proof (rule "2.IH"(2) [OF Some a [symmetric]])
      fix u m' r'
      assume u: "u \<noteq> []" "suffix u r" "match_percent (u @ t) = Some (m', r')"
      from u(2) have "suffix u (c # cs)"
        unfolding s by (metis suffix_append suffix_Cons)
      with u show "\<exists>r'. match_percent u = Some (m', r')"
        by (intro "2.prems")
    qed
    with ctx Some a show ?thesis by simp
  qed
qed

lemma percent_rewrite_literal:
  assumes "numeric_literal n"
  shows "percent_rewrite (n @ CHR ''%'' # post) = ''('' @ n @ ''/100)'' @ percent_rewrite post"
proof -
  from assms have "n \<noteq> []" by (rule numeric_literal_chars)
  then obtain c cs where n: "n = c # cs" by (cases n) auto
  have "match_percent (n @ CHR ''%'' # post) = Some (n, post)"
    using assms by (simp add: match_percent_iff)
  then show ?thesis by (simp add: n)
qed

lemma percent_rewrite_maximal:
  assumes "maximal_literal pre n"
  shows "percent_rewrite (pre @ n @ CHR ''%'' # post) =
           percent_rewrite pre @ ''('' @ n @ ''/100)'' @ percent_rewrite post"
proof -
  from assms have lit: "numeric_literal n"
    and mx: "\<And>u. suffix u pre \<Longrightarrow> u \<noteq> [] \<Longrightarrow> \<not> numeric_literal (u @ n)"
    by (auto simp: maximal_literal_def list_all_iff in_set_suffixes)
  have "percent_rewrite (pre @ n @ CHR ''%'' # post) =
          percent_rewrite pre @ percent_rewrite (n @ CHR ''%'' # post)"
  proof (rule percent_rewrite_append)
    fix u m r
    assume u: "u \<noteq> []" "suffix u pre" "match_percent (u @ n @ CHR ''%'' # post) = Some (m, r)"
    then have m: "numeric_literal m" and eq: "u @ n @ CHR ''%'' # post = m @ CHR ''%'' # r"
      by (simp_all add: match_percent_iff)
    from first_percent [OF eq numeric_literal_chars(3) [OF m] numeric_literal_chars(3) [OF lit]]
    show "\<exists>r'. match_percent u = Some (m, r')"
    proof
      assume "m = u @ n \<and> r = post"
      with m mx [OF u(2,1)] show ?thesis by simp
    next
      assume "\<exists>r'. u = m @ CHR ''%'' # r'"
      with m show ?thesis by (auto simp: match_percent_iff)
    qed
  qed
  with lit show ?thesis by (simp add: percent_rewrite_literal)
qed

lemma percent_rewrite_kept:
  assumes "pre = [] \<or> \<not> digit (last pre)"
  shows "percent_rewrite (pre @ CHR ''%'' # post) =
           percent_rewrite pre @ CHR ''%'' # percent_rewrite post"
proof -
  have "percent_rewrite (pre @ CHR ''%'' # post) =
          percent_rewrite pre @ percent_rewrite (CHR ''%'' # post)"
  proof (rule percent_rewrite_append)
    fix u m r
    assume u: "u \<noteq> []" "suffix u pre" "match_percent (u @ CHR ''%'' # post) = Some (m, r)"
    then have m: "numeric_literal m" and eq: "u @ [] @ CHR ''%'' # post = m @ CHR ''%'' # r"
      by (simp_all add: match_percent_iff)
    from u(1,2) have "last u = last pre" "pre \<noteq> []"
      by (auto simp: suffix_def)
    with assms have nd: "\<not> digit (last u)" by simp
    from first_percent [OF eq numeric_literal_chars(3) [OF m]]
    show "\<exists>r'. match_percent u = Some (m, r')"
    proof
      assume "m = u @ [] \<and> r = post"
      with numeric_literal_chars(2) [OF m] nd show ?thesis by simp
    next
      assume "\<exists>r'. u = m @ CHR ''%'' # r'"
      with m show ?thesis by (auto simp: match_percent_iff)
    qed simp
  qed
  moreover have "match_percent (CHR ''%'' # post) = None"
    by (simp add: match_percent_def)
  ultimately show ?thesis by simp
qed

lemma no_digit_percent_Cons:
  "no_digit_percent (a # s) \<longleftrightarrow>
     (s = [] \<or> \<not> (digit a \<and> hd s = CHR ''%'')) \<and> no_digit_percent s"
  by (cases s) auto

lemma no_digit_percent_append:
  "no_digit_percent (xs @ ys) \<longleftrightarrow>
     no_digit_percent xs \<and> no_digit_percent ys \<and>
     (xs = [] \<or> ys = [] \<or> \<not> (digit (last xs) \<and> hd ys = CHR ''%''))"
proof (induction xs)
  case Nil
  show ?case by simp
next
  case (Cons a xs)
  show ?case
  proof (cases xs)
    case Nil
    then show ?thesis by (auto simp: no_digit_percent_Cons)
  next
    case (Cons b xs')
    with Cons.IH show ?thesis by (auto simp: no_digit_percent_Cons)
  qed
qed

lemma no_percent_no_digit_percent: "CHR ''%'' \<notin> set s \<Longrightarrow> no_digit_percent s"
  by (induction s rule: no_digit_percent.induct) auto

lemma no_digit_percent_no_match:
  assumes "no_digit_percent s"
  shows "match_percent s = None"
proof (rule ccontr)
  assume "match_percent s \<noteq> None"
  then obtain m r where "match_percent s = Some (m, r)" by auto
  then have m: "numeric_literal m" and s: "s = m @ CHR ''%'' # r"
    by (simp_all add: match_percent_iff)
  from assms numeric_literal_chars(1,2) [OF m] show False
    unfolding s no_digit_percent_append by simp
qed

lemma percent_rewrite_fixed:
  "no_digit_percent s \<Longrightarrow> percent_rewrite s = s"
proof (induction s)
  case Nil
  show ?case by simp
next
  case (Cons c cs)
  from Cons.prems have "no_digit_percent cs" by (simp add: no_digit_percent_Cons)
  with Cons.IH have "percent_rewrite cs = cs" by simp
  with no_digit_percent_no_match [OF Cons.prems] show ?case by simp
qed

lemma percent_rewrite_starts_percent:
  assumes "percent_rewrite s = CHR ''%'' # x"
  shows "\<exists>y. s = CHR ''%'' # y"
proof (cases s)
  case Nil
  with assms show ?thesis by simp
next
  case (Cons c cs)
  with assms show ?thesis by (cases "match_percent (c # cs)") auto
qed

lemma no_digit_percent_percent_rewrite: "no_digit_percent (percent_rewrite s)"
proof (induction s rule: percent_rewrite.induct)
  case 1
  show ?case by simp
next
  case (2 c cs)
  show ?case
  proof (cases "match_percent (c # cs)")
    case None
    have "\<not> (digit c \<and> hd (percent_rewrite cs) = CHR ''%'')" if ne: "percent_rewrite cs \<noteq> []"
    proof
      assume d: "digit c \<and> hd (percent_rewrite cs) = CHR ''%''"
      with ne obtain x where "percent_rewrite cs = CHR ''%'' # x"
        by (cases "percent_rewrite cs") auto
      then obtain y where "cs = CHR ''%'' # y"
        using percent_rewrite_starts_percent by blast
      moreover have "numeric_literal [c]"
        using d by (simp add: numeric_literal_def)
      ultimately have "match_percent (c # cs) = Some ([c], y)"
        by (simp add: match_percent_iff)
      with None show False by simp
    qed
    with "2.IH"(1) [OF None] None show ?thesis
      by (auto simp: no_digit_percent_Cons)
  next
    case (Some a)
    obtain m r where a: "a = (m, r)" by (cases a)
    with Some have m: "numeric_literal m" by (simp add: match_percent_iff)
    have "no_digit_percent (''('' @ m @ ''/100)'')"
      using numeric_literal_chars(3) [OF m] by (intro no_percent_no_digit_percent) simp
    moreover have "no_digit_percent (percent_rewrite r)"
      by (rule "2.IH"(2) [OF Some a [symmetric]])
    ultimately have "no_digit_percent ((''('' @ m @ ''/100)'') @ percent_rewrite r)"
      unfolding no_digit_percent_append by simp
    with Some a show ?thesis by simp
  qed
qed

lemma percent_rewrite_idem: "percent_rewrite (percent_rewrite s) = percent_rewrite s"
  by (rule percent_rewrite_fixed) (rule no_digit_percent_percent_rewrite)

text \<open>The characters of a sanitized text.\<close>

lemma allowed_not_whitespace: "allowed c \<Longrightarrow> \<not> whitespace c"
  by (auto simp: allowed_def digit_def letter_def whitespace_def)

lemma set_caret_to_power:
  "set (caret_to_power s) \<subseteq> {c. allowed c \<and> c \<noteq> CHR ''^''}" if "\<forall>c\<in>set s. allowed c"
  using that by (induction s) (auto simp: caret_to_power_def allowed_def)

lemma set_percent_rewrite:
  "set (percent_rewrite s) \<subseteq> set s \<union> set ''(/100)''"
proof (induction s rule: percent_rewrite.induct)
  case 1
  show ?case by simp
next
  case (2 c cs)
  show ?case
  proof (cases "match_percent (c # cs)")
    case None
    with "2.IH"(1) [OF None] show ?thesis by auto
  next
    case (Some a)
    obtain m r where a: "a = (m, r)" by (cases a)
    with Some have s: "c # cs = m @ CHR ''%'' # r" by (simp add: match_percent_iff)
    have "set (percent_rewrite r) \<subseteq> set r \<union> set ''(/100)''"
      by (rule "2.IH"(2) [OF Some a [symmetric]])
    moreover have "set m \<subseteq> set (c # cs)" "set r \<subseteq> set (c # cs)"
      unfolding s by auto
    ultimately have "set (''('' @ m @ ''/100)'' @ percent_rewrite r) \<subseteq> set (c # cs) \<union> set ''(/100)''"
      by auto
    with Some a show ?thesis by simp
  qed
qed

lemma sanitize_eq:
  "sanitize s = percent_rewrite (caret_to_power (remove_disallowed (remove_spaces s)))"
  by (simp add: sanitize_def Let_def caret_to_power_def remove_disallowed_def)

lemma sanitize_chars:
  assumes "c \<in> set (sanitize s)"
  shows "allowed c \<and> c \<noteq> CHR ''^''"
proof -
  have "\<forall>c\<in>set (remove_disallowed (remove_spaces s)). allowed c"
    by (simp add: remove_disallowed_def)
  then have "set (caret_to_power (remove_disallowed (remove_spaces s))) \<subseteq> {c. allowed c \<and> c \<noteq> CHR ''^''}"
    by (rule set_caret_to_power)
  moreover have "set ''(/100)'' \<subseteq> {c. allowed c \<and> c \<noteq> CHR ''^''}"
    by (simp add: allowed_def digit_def)
  ultimately show ?thesis
    using assms set_percent_rewrite [of "caret_to_power (remove_disallowed (remove_spaces s))"]
    unfolding sanitize_eq by blast
qed

lemma caret_to_power_fixed: "CHR ''^'' \<notin> set s \<Longrightarrow> caret_to_power s = s"
  by (induction s) (auto simp: caret_to_power_def)

lemma sanitize_idem: "sanitize (sanitize s) = sanitize s"
proof -
  let ?t = "sanitize s"
  have a: "\<forall>c\<in>set ?t. allowed c" and b: "CHR ''^'' \<notin> set ?t"
    using sanitize_chars [of _ s] by blast+
  from a have "remove_spaces ?t = ?t"
    by (simp add: remove_spaces_def allowed_not_whitespace)
  moreover from a have "remove_disallowed ?t = ?t"
    by (simp add: remove_disallowed_def)
  moreover from b have "caret_to_power ?t = ?t" by (rule caret_to_power_fixed)
  moreover have "percent_rewrite ?t = ?t"
    unfolding sanitize_eq by (rule percent_rewrite_idem)
  ultimately show ?thesis
    unfolding sanitize_eq [of ?t] by simp
qed

section \<open>Rounded results are finite\<close>

lemma bitlen_nonneg: "0 \<le> bitlen n"
  by (induction n rule: bitlen.induct) (subst bitlen.simps, simp)

lemma bitlen_le: "n < 2 ^ k \<Longrightarrow> bitlen n \<le> int k"
proof (induction k arbitrary: n)
  case 0
  then show ?case by (subst bitlen.simps) simp
next
  case (Suc k)
  show ?case
  proof (cases "n \<le> 0")
    case True
    then show ?thesis by (subst bitlen.simps) simp
  next
    case False
    from Suc.prems have "n div 2 < 2 ^ k" by simp
    then have "bitlen (n div 2) \<le> int k" by (rule Suc.IH)
    with False show ?thesis by (subst bitlen.simps) simp
  qed
qed

lemma floor_log2_le:
  assumes "a < 2 ^ Suc k"
  shows "floor_log2 a \<le> int k"
proof (cases "1 \<le> a")
  case True
  have "\<lfloor>a\<rfloor> < 2 ^ Suc k"
  proof -
    have "of_int \<lfloor>a\<rfloor> \<le> a" by simp
    also note assms
    finally have "(of_int \<lfloor>a\<rfloor> :: rat) < of_int (2 ^ Suc k)" by simp
    then show ?thesis by (simp only: of_int_less_iff)
  qed
  then have "bitlen \<lfloor>a\<rfloor> \<le> int (Suc k)" by (rule bitlen_le)
  with True show ?thesis by (simp add: floor_log2_def)
next
  case False
  then show ?thesis
    using bitlen_nonneg [of "\<lceil>1 / a\<rceil> - 1"] by (simp add: floor_log2_def)
qed

lemma is_finite_rnd:
  assumes "\<bar>q\<bar> < 2 ^ 1023"
  shows "is_finite (rnd q)"
proof (cases "q = 0")
  case True
  then show ?thesis by (simp add: rnd_def is_finite_def)
next
  case False
  define e where "e = max (floor_log2 \<bar>q\<bar> - 52) (- 1074)"
  define m where "m = round_half_even (\<bar>q\<bar> / pow2 e)"
  have "floor_log2 \<bar>q\<bar> \<le> 1022"
    using floor_log2_le [of "\<bar>q\<bar>" 1022] assms by simp
  then have e: "e < 971" by (simp add: e_def)
  have "rnd q =
          (if 971 < e \<or> (e = 971 \<and> m = 2 ^ 53) then signed_infinity (q < 0)
           else if m = 0 then signed_zero (q < 0)
           else Fin (if 0 < q then of_int m * pow2 e else - (of_int m * pow2 e)))"
    unfolding e_def m_def using False by (simp only: rnd_def Let_def if_False)
  with e show ?thesis
    by (simp add: is_finite_def signed_zero_def)
qed

lemma is_finite_js_neg: "is_finite x \<Longrightarrow> is_finite (js_neg x)"
  by (cases x) (simp_all add: is_finite_def js_neg_def)

lemma round10_arg_bound:
  assumes "0 \<le> (a::rat)" "a < 10 ^ 21"
  shows "\<bar>of_int \<lfloor>a * 10 ^ 10 + 1 / 2\<rfloor> / 10 ^ 10\<bar> < (2::rat) ^ 1023"
proof -
  have "(of_int \<lfloor>a * 10 ^ 10 + 1 / 2\<rfloor> :: rat) \<le> a * 10 ^ 10 + 1 / 2" by (rule of_int_floor_le)
  then have "(of_int \<lfloor>a * 10 ^ 10 + 1 / 2\<rfloor> :: rat) / 10 ^ 10 \<le> (a * 10 ^ 10 + 1 / 2) / 10 ^ 10"
    by (simp add: divide_right_mono)
  also have "\<dots> = a + 1 / (2 * 10 ^ 10)" by (simp add: field_simps)
  also have "\<dots> < 10 ^ 21 + 1" using assms(2) by simp
  also have "\<dots> < (2::rat) ^ 1023" by simp
  finally have up: "(of_int \<lfloor>a * 10 ^ 10 + 1 / 2\<rfloor> :: rat) / 10 ^ 10 < 2 ^ 1023" .
  have "0 \<le> \<lfloor>a * 10 ^ 10 + 1 / 2\<rfloor>" using assms(1) by simp
  then have "0 \<le> (of_int \<lfloor>a * 10 ^ 10 + 1 / 2\<rfloor> :: rat) / 10 ^ 10" by simp
  with up show ?thesis by simp
qed

lemma is_finite_round10: "is_finite x \<Longrightarrow> is_finite (round10 x)"
proof (cases x)
  case (Fin q)
  show ?thesis
  proof (cases "10 ^ 21 \<le> \<bar>q\<bar>")
    case True
    with Fin show ?thesis by (simp add: round10_def is_finite_def)
  next
    case False
    show ?thesis
    proof (cases "q < 0")
      case True
      with False have "0 \<le> - q" "- q < 10 ^ 21" by simp_all
      then have "is_finite (rnd (of_int \<lfloor>- q * 10 ^ 10 + 1 / 2\<rfloor> / 10 ^ 10))"
        by (intro is_finite_rnd round10_arg_bound)
      with Fin False True show ?thesis by (simp add: round10_def is_finite_js_neg)
    next
      case nonneg: False
      with False have "0 \<le> q" "q < 10 ^ 21" by simp_all
      then have "is_finite (rnd (of_int \<lfloor>q * 10 ^ 10 + 1 / 2\<rfloor> / 10 ^ 10))"
        by (intro is_finite_rnd round10_arg_bound)
      with Fin False nonneg show ?thesis by (simp add: round10_def)
    qed
  qed
qed (simp_all add: round10_def is_finite_def)

section \<open>Evaluation\<close>

lemma trim_nonempty:
  assumes "remove_spaces e \<noteq> []"
  shows "trim e \<noteq> []"
proof -
  from assms obtain c where c: "c \<in> set e" "\<not> whitespace c"
    by (auto simp: remove_spaces_def filter_empty_conv)
  then have ne: "dropWhile whitespace e \<noteq> []"
    by (auto simp: dropWhile_eq_Nil_conv)
  then have "\<not> whitespace (hd (dropWhile whitespace e))"
    by (rule hd_dropWhile)
  moreover from ne have "hd (dropWhile whitespace e) \<in> set (rev (dropWhile whitespace e))"
    by simp
  ultimately have "dropWhile whitespace (rev (dropWhile whitespace e)) \<noteq> []"
    by (auto simp: dropWhile_eq_Nil_conv simp del: set_rev)
  then show ?thesis by (simp add: trim_def)
qed

lemma evaluateExpression_Value:
  assumes "fst (evaluateExpression h e st) = Value r"
  shows "is_finite r \<and> remove_spaces e \<noteq> [] \<and> snd (evaluateExpression h e st) = st"
  using assms
  by (auto simp: evaluateExpression_def Let_def is_finite_round10
      split: if_splits completion.splits jsvalue.splits)


subsection \<open>Evaluations of the fragment\<close>

lemma parse_0: "parse ''0'' = Some (Num (Fin 0))"
  by code_simp
lemma parse_50: "parse ''(50/100)'' = Some (Bin Div (Num (Fin 50)) (Num (Fin 100)))"
  by code_simp
lemma parse_1_0: "parse ''1/0'' = Some (Bin Div (Num (Fin 1)) (Num (Fin 0)))"
  by code_simp
lemma parse_rem: "parse ''(3+2)%3'' = Some (Bin Rem (Bin Add (Num (Fin 3)) (Num (Fin 2))) (Num (Fin 3)))"
  by code_simp
lemma parse_inf: "parse ''1/Infinity'' = Some (Bin Div (Num (Fin 1)) (Ident ''Infinity''))"
  by code_simp
lemma parse_sin: "parse ''sin(30)'' = Some (Call (Ident ''sin'') (Num (Fin 30)))"
  by code_simp
lemma parse_2_2: "parse ''2+2'' = Some (Bin Add (Num (Fin 2)) (Num (Fin 2)))"
  by code_simp

lemma div_50: "js_div (Fin 50) (Fin 100) = Fin (1 / 2)"
  by code_simp
lemma div_1_0: "js_div (Fin 1) (Fin 0) = PosInf"
  by code_simp
lemma add_3_2: "js_add (Fin 3) (Fin 2) = Fin 5"
  by code_simp
lemma add_2_2: "js_add (Fin 2) (Fin 2) = Fin 4"
  by code_simp
lemma rem_5_3: "js_rem (Fin 5) (Fin 3) = Fin 2"
  by code_simp
lemma div_1_inf: "js_div (Fin 1) PosInf = Fin 0"
  by code_simp
lemma round10_half: "round10 (Fin (1 / 2)) = Fin (1 / 2)"
  by code_simp
lemma round10_2: "round10 (Fin 2) = Fin 2"
  by code_simp
lemma round10_4: "round10 (Fin 4) = Fin 4"
  by code_simp
lemma round10_0: "round10 (Fin 0) = Fin 0"
  by code_simp
lemma degToRad_30: "degToRad (Fin 30) = Fin (4716158501352293 / 2 ^ 53)"
  by code_simp
lemma round10_sin: "round10 (Fin (9007199254740991 / 2 ^ 54)) = Fin (1 / 2)"
  by code_simp
lemma sanitize_50: "sanitize ''50%'' = ''(50/100)''"
  by code_simp
lemma sanitize_rem: "sanitize ''(3+2)%3'' = ''(3+2)%3''"
  by code_simp

lemma caret_to_power_Nil [simp]: "caret_to_power s = [] \<longleftrightarrow> s = []"
  by (cases s) (simp_all add: caret_to_power_def)

lemma percent_rewrite_Nil [simp]: "percent_rewrite s = [] \<longleftrightarrow> s = []"
  by (cases s) (simp_all split: option.split)

lemma evaluateExpression_sanitize:
  "evaluateExpression h rawExpr st =
     (if sanitize rawExpr = [] then (Empty, st)
      else case Function_call h param_names (function_body (sanitize rawExpr)) (call_arguments h st) of
             Threw \<Rightarrow> (Error, showErrorAnimation st)
           | Returned result \<Rightarrow>
               (case result of
                  VNumber x \<Rightarrow>
                    if is_finite x then (Value (round10 x), st)
                    else (Error, showErrorAnimation st)
                | _ \<Rightarrow> (Error, showErrorAnimation st)))"
  by (simp add: evaluateExpression_def sanitize_def Let_def)

lemma evaluateExpression_fragment:
  assumes "implements_fragment h" "sanitize rawExpr = t" "t \<noteq> []"
    and "es_return param_names t (call_arguments h st) = Some (VNumber x)"
  shows "evaluateExpression h rawExpr st =
           (if is_finite x then (Value (round10 x), st) else (Error, showErrorAnimation st))"
proof -
  from assms(1,4) have "Function_call h param_names (function_body t) (call_arguments h st) = Returned (VNumber x)"
    by (simp add: implements_fragment_def)
  with assms(2,3) show ?thesis by (simp add: evaluateExpression_sanitize)
qed

lemma body_text_function_body [simp]: "body_text (function_body t) = Some t"
  by (simp add: body_text_def function_body_def)

lemma implements_fragment_example: "implements_fragment example_host"
  by (simp add: implements_fragment_def example_host_def)

lemma es_return_1_0: "es_return param_names ''1/0'' args = Some (VNumber PosInf)"
  by (simp add: es_return_def parse_1_0 apply_binop_def div_1_0)

lemma es_return_2_2: "es_return param_names ''2+2'' args = Some (VNumber (Fin 4))"
  by (simp add: es_return_def parse_2_2 apply_binop_def add_2_2)

lemma sanitize_1_0: "sanitize ''1/0'' = ''1/0''"
  by code_simp
lemma sanitize_2_2: "sanitize ''2+2'' = ''2+2''"
  by code_simp


lemma es_return_0: "es_return param_names ''0'' args = Some (VNumber (Fin 0))"
  by (simp add: es_return_def parse_0)

lemma sanitize_0: "sanitize ''0'' = ''0''"
  by code_simp

lemma es_return_50: "es_return param_names ''(50/100)'' args = Some (VNumber (Fin (1 / 2)))"
  by (simp add: es_return_def parse_50 apply_binop_def div_50)

lemma es_return_rem: "es_return param_names ''(3+2)%3'' args = Some (VNumber (Fin 2))"
  by (simp add: es_return_def parse_rem apply_binop_def add_3_2 rem_5_3)

lemma sanitize_inf: "sanitize ''1/Infinity'' = ''1/Infinity''"
  by code_simp

lemma es_return_inf: "es_return param_names ''1/Infinity'' args = Some (VNumber (Fin 0))"
  by (simp add: es_return_def parse_inf apply_binop_def div_1_inf resolve_def param_names_def
      global_value_def)

section \<open>The example host conforms\<close>

lemma digit_digit_char: "d < 10 \<Longrightarrow> digit (digit_char d)"
  unfolding digit_def digit_char_def by (rule nth_mem) simp

lemma digits_of_nonempty: "digits_of n \<noteq> []"
  by (subst digits_of.simps) simp

lemma digits_of_digits: "list_all digit (digits_of n)"
proof (induction n rule: digits_of.induct)
  case (1 n)
  show ?case
  proof (cases "n < 10")
    case True
    then show ?thesis by (subst digits_of.simps) (simp add: digit_digit_char)
  next
    case False
    with 1 show ?thesis by (subst digits_of.simps) (simp add: digit_digit_char)
  qed
qed

lemma number_textI:
  assumes "sg = [] \<or> sg = ''-''" "ip \<noteq> []" "list_all digit ip"
    and "fp = [] \<or> (\<exists>fs. fp = CHR ''.'' # fs \<and> fs \<noteq> [] \<and> list_all digit fs)"
  shows "number_text (sg @ ip @ fp)"
  unfolding number_text_def
  using assms by (intro exI [of _ sg] exI [of _ ip] exI [of _ fp] exI [of _ "[]"]) simp

lemma number_text_example:
  assumes "is_finite x"
  shows "number_text (example_toString x)"
proof (cases x)
  case NegZero
  have "number_text ([] @ ''0'' @ [])"
    by (rule number_textI) (simp_all add: digit_def)
  with NegZero show ?thesis by (simp add: example_toString_def)
next
  case (Fin q)
  have "number_text ((if q < 0 then ''-'' else []) @ digits_of (nat \<lfloor>\<bar>q\<bar>\<rfloor>) @
          (if \<bar>q\<bar> = of_int \<lfloor>\<bar>q\<bar>\<rfloor> then []
           else [CHR ''.'', digit_char (nat \<lfloor>(\<bar>q\<bar> - of_int \<lfloor>\<bar>q\<bar>\<rfloor>) * 10\<rfloor>)]))"
  proof (rule number_textI)
    define f where "f = (\<bar>q\<bar> - of_int \<lfloor>\<bar>q\<bar>\<rfloor>) * 10"
    have "0 \<le> \<bar>q\<bar> - of_int \<lfloor>\<bar>q\<bar>\<rfloor>" "\<bar>q\<bar> - of_int \<lfloor>\<bar>q\<bar>\<rfloor> < 1"
      by linarith+
    then have "0 \<le> f" "f < of_int 10" by (simp_all add: f_def)
    then have "0 \<le> \<lfloor>f\<rfloor>" "\<lfloor>f\<rfloor> < 10"
      by (simp_all only: zero_le_floor floor_less_iff)
    then have "nat \<lfloor>f\<rfloor> < 10" by arith
    then have "nat \<lfloor>(\<bar>q\<bar> - of_int \<lfloor>\<bar>q\<bar>\<rfloor>) * 10\<rfloor> < 10" by (simp only: f_def)
    then show "(if \<bar>q\<bar> = of_int \<lfloor>\<bar>q\<bar>\<rfloor> then []
           else [CHR ''.'', digit_char (nat \<lfloor>(\<bar>q\<bar> - of_int \<lfloor>\<bar>q\<bar>\<rfloor>) * 10\<rfloor>)]) = [] \<or>
       (\<exists>fs. (if \<bar>q\<bar> = of_int \<lfloor>\<bar>q\<bar>\<rfloor> then []
           else [CHR ''.'', digit_char (nat \<lfloor>(\<bar>q\<bar> - of_int \<lfloor>\<bar>q\<bar>\<rfloor>) * 10\<rfloor>)]) = CHR ''.'' # fs \<and>
          fs \<noteq> [] \<and> list_all digit fs)"
      by (simp add: digit_digit_char)
  qed (simp_all add: digits_of_nonempty digits_of_digits)
  with Fin show ?thesis by (simp add: example_toString_def)
qed (use assms in \<open>simp_all add: is_finite_def\<close>)

lemma example_toString_integer: "example_toString (Fin (of_int n)) = integer_text n"
  by (simp add: example_toString_def integer_text_def flip: of_int_abs)

lemma toString_conforms_example: "toString_conforms example_host"
  by (simp add: toString_conforms_def example_host_def number_text_example
      example_toString_integer) (simp add: example_toString_def digits_of.simps digit_char_def)

section \<open>The session\<close>

lemma evaluate_example_1_0:
  "evaluateExpression example_host ''1/0'' st = (Error, showErrorAnimation st)"
  using evaluateExpression_fragment
    [OF implements_fragment_example sanitize_1_0 _ es_return_1_0, of st]
  by (simp add: is_finite_def)

lemma evaluate_example_2_2:
  "evaluateExpression example_host ''2+2'' st = (Value (Fin 4), st)"
  using evaluateExpression_fragment
    [OF implements_fragment_example sanitize_2_2 _ es_return_2_2, of st]
  by (simp add: is_finite_def round10_4)

lemma integer_text_4: "integer_text 4 = ''4''"
  by (simp add: integer_text_def digits_of.simps digit_char_def)

lemma integer_text_0: "integer_text 0 = ''0''"
  by (simp add: integer_text_def digits_of.simps digit_char_def)

lemma example_toString_4: "Number_toString example_host (Fin 4) = ''4''"
  using example_toString_integer [of 4] by (simp add: example_host_def integer_text_4)


lemma display_synced_syncDisplay [simp]: "display_synced (syncDisplay st)"
  by (simp add: display_synced_def syncDisplay_def)

lemma display_synced_appendToExpression [simp]: "display_synced (appendToExpression t st)"
  by (simp add: appendToExpression_def Let_def)

lemma display_synced_step: "display_synced st \<Longrightarrow> display_synced (step h st ev)"
proof (cases ev)
  case (FunctionKey f)
  assume "display_synced st"
  with FunctionKey show ?thesis by (simp add: handleFunction_def)
next
  case (ActionKey a)
  assume "display_synced st"
  with ActionKey show ?thesis
    by (simp add: handleAction_def clearExpression_def deleteLastChar_def Let_def split_beta
        split: eval_result.split)
next
  case (HistoryEntry i)
  assume "display_synced st"
  with HistoryEntry show ?thesis by (simp add: historyClick_def)
next
  case ClearHistory
  assume "display_synced st"
  with ClearHistory show ?thesis by (simp add: clearHistory_def display_synced_def)
next
  case AngleToggle
  assume "display_synced st"
  with AngleToggle show ?thesis by (simp add: toggleAngleMode_def display_synced_def)
qed simp

lemma display_synced_run: "display_synced (run h evs)"
proof -
  have "display_synced st \<Longrightarrow> display_synced (foldl (step h) st evs)" for st
    by (induction evs arbitrary: st) (simp_all add: display_synced_step)
  then show ?thesis by (simp add: run_def initial_def clearExpression_def)
qed

text \<open>The effect of a commit when the call of the engine leaves the session alone.\<close>

lemma equals_effect:
  "(let exprToEval = (if expression st = [] then displayMain st else expression st);
        result = fst (evaluateExpression h exprToEval st);
        st' = handleAction h ''equals'' st
    in (result = Error \<or> result = Empty \<longrightarrow>
          lastResult st' = lastResult st \<and> expression st' = expression st \<and>
          history st' = history st) \<and>
       (\<forall>r. result = Value r \<longrightarrow>
          lastResult st' = Some r \<and> expression st' = Number_toString h r \<and>
          history st' =
            (let l = (exprToEval, r) # history st in if 20 < length l then butlast l else l)))"
proof -
  define e where "e = (if expression st = [] then displayMain st else expression st)"
  define res where "res = evaluateExpression h e st"
  have st1: "snd res = (if fst res = Error then showErrorAnimation st else st)"
    unfolding res_def by (rule evaluateExpression_state)
  have act: "handleAction h ''equals'' st =
               (case fst res of
                  Value r \<Rightarrow>
                    syncDisplay
                      ((addToHistory e r (snd res))
                         \<lparr>lastResult := Some r, expression := Number_toString h r\<rparr>)
                | _ \<Rightarrow> syncDisplay (snd res))"
    unfolding e_def res_def by (simp add: handleAction_def Let_def split_beta)
  have fail: "lastResult (handleAction h ''equals'' st) = lastResult st \<and>
              expression (handleAction h ''equals'' st) = expression st \<and>
              history (handleAction h ''equals'' st) = history st"
    if "fst res = Error \<or> fst res = Empty"
    using that st1 by (auto simp: act syncDisplay_def showErrorAnimation_def)
  have ok: "lastResult (handleAction h ''equals'' st) = Some r \<and>
            expression (handleAction h ''equals'' st) = Number_toString h r \<and>
            history (handleAction h ''equals'' st) =
              (let l = (e, r) # history st in if 20 < length l then butlast l else l)"
    if "fst res = Value r" for r
  proof -
    from that have v: "is_finite r" "remove_spaces e \<noteq> []" "snd res = st"
      using evaluateExpression_Value [of h e st r] by (simp_all add: res_def)
    from v(2) have "trim e \<noteq> []" by (rule trim_nonempty)
    moreover from this have "e \<noteq> []" by (auto simp: trim_def)
    ultimately show ?thesis
      using that v by (simp add: act syncDisplay_def addToHistory_def Let_def)
  qed
  from fail ok show ?thesis
    unfolding Let_def e_def [symmetric] res_def [symmetric] by blast
qed

section \<open>The invariant of the buffer\<close>

lemma nao_Cons:
  "no_adjacent_operators (a # s) \<longleftrightarrow>
     (s = [] \<or> \<not> (binary_operator a \<and> binary_operator (hd s))) \<and> no_adjacent_operators s"
  by (cases s) auto

lemma nao_append:
  "no_adjacent_operators (xs @ ys) \<longleftrightarrow>
     no_adjacent_operators xs \<and> no_adjacent_operators ys \<and>
     (xs = [] \<or> ys = [] \<or> \<not> (binary_operator (last xs) \<and> binary_operator (hd ys)))"
proof (induction xs)
  case Nil
  show ?case by simp
next
  case (Cons a xs)
  show ?case
  proof (cases xs)
    case Nil
    then show ?thesis by (auto simp: nao_Cons)
  next
    case (Cons b xs')
    with Cons.IH show ?thesis by (auto simp: nao_Cons)
  qed
qed

lemma nao_no_operator: "\<forall>c\<in>set s. \<not> binary_operator c \<Longrightarrow> no_adjacent_operators s"
  by (induction s rule: no_adjacent_operators.induct) auto

lemma nao_butlast: "no_adjacent_operators s \<Longrightarrow> no_adjacent_operators (butlast s)"
proof (cases "s = []")
  case False
  assume "no_adjacent_operators s"
  with False have "no_adjacent_operators (butlast s @ [last s])" by simp
  then show ?thesis unfolding nao_append by simp
qed simp

lemma nao_butlast_last:
  assumes "no_adjacent_operators s" "s \<noteq> []" "binary_operator (last s)" "butlast s \<noteq> []"
  shows "\<not> binary_operator (last (butlast s))"
proof -
  from assms(1,2) have "no_adjacent_operators (butlast s @ [last s])" by simp
  with assms(3,4) show ?thesis unfolding nao_append by simp
qed

lemma str_includes_Cons: "str_includes s (c # t) \<Longrightarrow> c \<in> set s"
  by (induction s) auto

lemma str_includes_hd: "str_includes s t \<Longrightarrow> t \<noteq> [] \<Longrightarrow> hd t \<in> set s"
  by (cases t) (auto dest: str_includes_Cons)

lemma str_includes_single: "str_includes operators [c] \<longleftrightarrow> binary_operator c"
  by (auto simp: operators_def binary_operator_def)

lemma str_includes_last:
  "str_includes operators (slice_last e) \<longleftrightarrow> e = [] \<or> binary_operator (last e)"
  by (auto simp: slice_last_def str_includes_single) (simp add: operators_def)

lemma safe_token_operator:
  assumes "safe_token t" "str_includes operators t"
  shows "t = [] \<or> (\<exists>c. t = [c] \<and> binary_operator c)"
proof (cases "t = []")
  case False
  with assms(2) have "hd t \<in> set operators" by (simp add: str_includes_hd)
  then have "binary_operator (hd t)" by (simp add: operators_def binary_operator_def)
  with assms(1) False have "length t = 1" by (auto simp: safe_token_def)
  with \<open>binary_operator (hd t)\<close> show ?thesis
    by (cases t) auto
qed simp

lemma safe_token_other:
  assumes "safe_token t" "\<not> str_includes operators t"
  shows "no_adjacent_operators t \<and> (t = [] \<or> \<not> binary_operator (hd t))"
proof -
  have "\<not> (length t = 1 \<and> binary_operator (hd t))"
  proof
    assume a: "length t = 1 \<and> binary_operator (hd t)"
    then obtain c where "t = [c]" by (cases t) auto
    with a assms(2) show False by (simp add: str_includes_single)
  qed
  with assms(1) show ?thesis by (auto simp: safe_token_def)
qed

lemma expression_syncDisplay [simp]: "expression (syncDisplay st) = expression st"
  by (simp add: syncDisplay_def)

lemma expression_appendToExpression:
  "expression (appendToExpression t st) =
     (if str_includes operators t \<and> (expression st = [] \<or> binary_operator (last (expression st)))
      then butlast (expression st) @ t else expression st @ t)"
  by (auto simp: appendToExpression_def Let_def str_includes_last slice_init_def)

lemma nao_appendToExpression:
  assumes "no_adjacent_operators (expression st)" "safe_token t"
  shows "no_adjacent_operators (expression (appendToExpression t st))"
proof (cases "str_includes operators t")
  case True
  with assms(2) consider "t = []" | c where "t = [c]" "binary_operator c"
    using safe_token_operator by blast
  then show ?thesis
  proof cases
    case 1
    with assms(1) show ?thesis
      by (simp add: expression_appendToExpression nao_butlast)
  next
    case 2
    show ?thesis
    proof (cases "expression st = [] \<or> binary_operator (last (expression st))")
      case replace: True
      have "no_adjacent_operators (butlast (expression st) @ [c])"
      proof (cases "butlast (expression st) = []")
        case True
        then show ?thesis by simp
      next
        case False
        then have ne: "expression st \<noteq> []" by auto
        with replace have "binary_operator (last (expression st))" by simp
        with assms(1) ne False have "\<not> binary_operator (last (butlast (expression st)))"
          by (simp add: nao_butlast_last)
        with assms(1) show ?thesis
          unfolding nao_append by (simp add: nao_butlast)
      qed
      with True replace 2 show ?thesis by (simp add: expression_appendToExpression)
    next
      case False
      with assms(1) have "no_adjacent_operators (expression st @ [c])"
        unfolding nao_append by simp
      with True False 2 show ?thesis by (simp add: expression_appendToExpression)
    qed
  qed
next
  case False
  with assms(2) have "no_adjacent_operators t \<and> (t = [] \<or> \<not> binary_operator (hd t))"
    by (rule safe_token_other)
  with assms(1) have "no_adjacent_operators (expression st @ t)"
    unfolding nao_append by auto
  with False show ?thesis by (simp add: expression_appendToExpression)
qed

lemma digit_not_operator: "digit c \<Longrightarrow> \<not> binary_operator c"
  by (auto simp: digit_def binary_operator_def)

lemma nao_number_text:
  assumes "number_text s"
  shows "no_adjacent_operators s"
proof -
  from assms obtain sg ip fp ex where s: "s = sg @ ip @ fp @ ex"
    and sg: "sg = [] \<or> sg = ''-''"
    and ip: "ip \<noteq> []" "list_all digit ip"
    and fp: "fp = [] \<or> (\<exists>fs. fp = CHR ''.'' # fs \<and> fs \<noteq> [] \<and> list_all digit fs)"
    and ex: "ex = [] \<or>
         (\<exists>c ds. ex = CHR ''e'' # c # ds \<and> (c = CHR ''+'' \<or> c = CHR ''-'') \<and>
                  ds \<noteq> [] \<and> list_all digit ds)"
    unfolding number_text_def by blast
  have nd: "\<forall>c\<in>set xs. \<not> binary_operator c" if "list_all digit xs" for xs
    using that by (simp add: list_all_iff digit_not_operator)
  have 1: "no_adjacent_operators sg"
  proof (cases "sg = []")
    case False
    with sg have "sg = ''-''" by simp
    then show ?thesis by simp
  qed simp
  have ipn: "\<forall>c\<in>set ip. \<not> binary_operator c" by (rule nd [OF ip(2)])
  have fpn: "\<forall>c\<in>set fp. \<not> binary_operator c"
  proof (cases "fp = []")
    case False
    with fp obtain fs where "fp = CHR ''.'' # fs" "list_all digit fs" by blast
    with nd [of fs] show ?thesis by (simp add: binary_operator_def)
  qed simp
  from ipn fpn have "\<forall>c\<in>set (ip @ fp). \<not> binary_operator c" by auto
  then have 2: "no_adjacent_operators (ip @ fp)" by (rule nao_no_operator)
  have 3: "no_adjacent_operators ex \<and> (ex = [] \<or> \<not> binary_operator (hd ex))"
  proof (cases "ex = []")
    case False
    with ex obtain c ds where e: "ex = CHR ''e'' # c # ds" "ds \<noteq> []" "list_all digit ds"
      by blast
    from e(2,3) have "\<not> binary_operator (hd ds)"
      by (cases ds) (simp_all add: digit_not_operator)
    moreover have "no_adjacent_operators ds" using nd [OF e(3)] by (rule nao_no_operator)
    ultimately show ?thesis
      by (simp add: e(1) nao_Cons e(2) binary_operator_def)
  qed simp
  from ip have 4: "\<not> binary_operator (hd ip)"
    by (cases ip) (simp_all add: digit_not_operator)
  have 5: "no_adjacent_operators ((ip @ fp) @ ex)"
    unfolding nao_append [of "ip @ fp" ex] using 2 3 by blast
  have "hd ((ip @ fp) @ ex) = hd ip" using ip(1) by simp
  with 4 have 6: "\<not> binary_operator (hd ((ip @ fp) @ ex))" by simp
  have "no_adjacent_operators (sg @ (ip @ fp) @ ex)"
    unfolding nao_append [of sg "(ip @ fp) @ ex"] using 1 5 6 by blast
  then show ?thesis by (simp add: s)
qed

lemma invariant_syncDisplay [simp]:
  "session_invariant (syncDisplay st) = session_invariant st"
  by (simp add: session_invariant_def syncDisplay_def)

lemma invariant_appendToExpression:
  "session_invariant st \<Longrightarrow> safe_token t \<Longrightarrow> session_invariant (appendToExpression t st)"
  by (simp add: session_invariant_def nao_appendToExpression)

lemma safe_tokens: "safe_token ''PI''" "safe_token ''E''" "safe_token ''Ans''" "safe_token ''%''"
  "safe_token ''.''" "safe_token ''0''" "safe_token ''00''"
  by (simp_all add: safe_token_def binary_operator_def)

lemma invariant_handleFunction:
  assumes "session_invariant st"
  shows "session_invariant (handleFunction f st)"
proof (cases "f \<in> set [''sin'', ''cos'', ''tan'', ''log'', ''ln'', ''sqrt'']")
  case True
  then have "\<forall>c\<in>set f. \<not> binary_operator c"
    by (auto simp: binary_operator_def)
  then have "\<forall>c\<in>set (f @ ''(''). \<not> binary_operator c"
    by (auto simp: binary_operator_def)
  moreover from this have "no_adjacent_operators (f @ ''('')" by (rule nao_no_operator)
  ultimately have "no_adjacent_operators (expression st @ f @ ''('')"
    using assms unfolding nao_append [of "expression st"] session_invariant_def
    by (cases f) auto
  moreover have "handleFunction f st = syncDisplay (st\<lparr>expression := expression st @ f @ ''(''\<rparr>)"
    by (simp only: handleFunction_def if_P [OF True])
  ultimately show ?thesis
    using assms by (simp add: session_invariant_def)
next
  case False
  have square: "no_adjacent_operators (''('' @ expression st @ '')^2'')"
    using assms unfolding nao_append
    by (simp add: session_invariant_def binary_operator_def)
  have "handleFunction f st =
      (if f = ''square''
        then (if expression st = [] then st
              else syncDisplay (st\<lparr>expression := ''('' @ expression st @ '')^2''\<rparr>))
      else if f = ''pi'' then appendToExpression ''PI'' st
      else if f = ''e'' then appendToExpression ''E'' st
      else if f = ''ans''
        then (if lastResult st \<noteq> None then appendToExpression ''Ans'' st else st)
      else st)"
    by (simp only: handleFunction_def if_not_P [OF False])
  moreover have "session_invariant (syncDisplay (st\<lparr>expression := ''('' @ expression st @ '')^2''\<rparr>))"
    using assms square by (simp add: session_invariant_def)
  ultimately show ?thesis
    using assms by (simp add: invariant_appendToExpression safe_tokens)
qed

lemma invariant_addToHistory:
  "session_invariant st \<Longrightarrow> session_invariant (addToHistory e r st)"
  by (auto simp: session_invariant_def addToHistory_def Let_def list_all_iff dest: in_set_butlastD)

lemma invariant_handleAction:
  assumes "toString_conforms h" "session_invariant st"
  shows "session_invariant (handleAction h a st)"
proof -
  have t: "no_adjacent_operators (Number_toString h r)" if "is_finite r" for r
    using assms(1) that by (simp add: toString_conforms_def nao_number_text)
  have eq: "session_invariant (handleAction h ''equals'' st)"
  proof -
    define e where "e = (if expression st = [] then displayMain st else expression st)"
    define res where "res = evaluateExpression h e st"
    have st1: "snd res = (if fst res = Error then showErrorAnimation st else st)"
      unfolding res_def by (rule evaluateExpression_state)
    have act: "handleAction h ''equals'' st =
               (case fst res of
                  Value r \<Rightarrow>
                    syncDisplay
                      ((addToHistory e r (snd res))
                         \<lparr>lastResult := Some r, expression := Number_toString h r\<rparr>)
                | _ \<Rightarrow> syncDisplay (snd res))"
      unfolding e_def res_def by (simp add: handleAction_def Let_def split_beta)
    show ?thesis
    proof (cases "fst res")
      case (Value r)
      then have "is_finite r" "snd res = st"
        using evaluateExpression_Value [of h e st r] by (simp_all add: res_def)
      with Value invariant_addToHistory [OF assms(2), of e r] t [of r] show ?thesis
        by (simp add: act session_invariant_def)
    qed (use assms(2) st1 in \<open>simp_all add: act session_invariant_def showErrorAnimation_def\<close>)
  qed
  have del: "session_invariant (deleteLastChar st)"
    using assms(2) by (simp add: deleteLastChar_def session_invariant_def slice_init_def nao_butlast)
  have clr: "session_invariant (clearExpression st)"
    using assms(2) by (simp add: clearExpression_def session_invariant_def)
  show ?thesis
    using assms(2) eq del clr
    by (simp add: handleAction_def invariant_appendToExpression safe_tokens)
qed

lemma invariant_historyClick:
  assumes "toString_conforms h" "session_invariant st"
  shows "session_invariant (historyClick h i st)"
proof (cases "i < length (history st)")
  case True
  with assms(2) have "is_finite (snd (history st ! i))"
    by (auto simp: session_invariant_def list_all_length split_beta)
  with assms(1) have "no_adjacent_operators (Number_toString h (snd (history st ! i)))"
    by (simp add: toString_conforms_def nao_number_text)
  with assms(2) True show ?thesis by (simp add: historyClick_def session_invariant_def)
qed (use assms(2) in \<open>simp add: historyClick_def\<close>)

lemma invariant_step:
  assumes "toString_conforms h" "session_invariant st" "safe_event ev"
  shows "session_invariant (step h st ev)"
  using assms
  by (cases ev)
    (simp_all add: safe_event_def invariant_appendToExpression invariant_handleFunction
      invariant_handleAction invariant_historyClick,
     simp_all add: session_invariant_def clearHistory_def toggleAngleMode_def)

lemma invariant_run:
  assumes "toString_conforms h" "list_all safe_event evs"
  shows "session_invariant (run h evs)"
proof -
  have "session_invariant st \<Longrightarrow> list_all safe_event evs \<Longrightarrow>
          session_invariant (foldl (step h) st evs)" for st
    by (induction evs arbitrary: st) (simp_all add: invariant_step [OF assms(1)])
  with assms(2) show ?thesis
    by (simp add: run_def initial_def clearExpression_def session_invariant_def)
qed

section \<open>The sine of 30 degrees\<close>

lemma arctan_bounds:
  fixes x :: real
  assumes "0 < x" "x \<le> 1"
  shows "(\<Sum>i<2 * n. (- 1) ^ i * (1 / real (i * 2 + 1) * x ^ (i * 2 + 1))) \<le> arctan x"
    and "arctan x \<le> (\<Sum>i<2 * n + 1. (- 1) ^ i * (1 / real (i * 2 + 1) * x ^ (i * 2 + 1)))"
proof -
  let ?a = "\<lambda>n. 1 / real (n * 2 + 1) * x ^ (n * 2 + 1)"
  have x: "\<bar>x\<bar> \<le> 1" using assms by simp
  have "0 < ?a 0" using assms by simp
  with summable_Leibniz(2) [OF zeroseq_arctan_series [OF x] monoseq_arctan_series [OF x]]
  have "(\<Sum>i. (- 1) ^ i * ?a i) \<in> {\<Sum>i<2 * n. (- 1) ^ i * ?a i .. \<Sum>i<2 * n + 1. (- 1) ^ i * ?a i}"
    by blast
  then show "(\<Sum>i<2 * n. (- 1) ^ i * ?a i) \<le> arctan x"
    and "arctan x \<le> (\<Sum>i<2 * n + 1. (- 1) ^ i * ?a i)"
    unfolding arctan_series [OF x] by simp_all
qed

lemma arctan_5_bounds:
  "(19739555984977 / 100000000000000 :: real) \<le> arctan (1 / 5)"
  "arctan (1 / 5) \<le> (19739555984989 / 100000000000000 :: real)"
proof -
  have "(19739555984977 / 100000000000000 :: real)
          \<le> (\<Sum>i<2 * 4. (- 1) ^ i * (1 / real (i * 2 + 1) * (1 / 5) ^ (i * 2 + 1)))"
    by (simp add: eval_nat_numeral)
  also have "\<dots> \<le> arctan (1 / 5)" by (rule arctan_bounds) simp_all
  finally show "(19739555984977 / 100000000000000 :: real) \<le> arctan (1 / 5)" .
  have "arctan (1 / 5) \<le> (\<Sum>i<2 * 4 + 1. (- 1) ^ i * (1 / real (i * 2 + 1) * (1 / 5) ^ (i * 2 + 1)))"
    by (rule arctan_bounds) simp_all
  also have "\<dots> \<le> (19739555984989 / 100000000000000 :: real)"
    by (simp add: eval_nat_numeral)
  finally show "arctan (1 / 5) \<le> (19739555984989 / 100000000000000 :: real)" .
qed

lemma arctan_239_bounds:
  "(4184076001818 / 1000000000000000 :: real) \<le> arctan (1 / 239)"
  "arctan (1 / 239) \<le> (4184076002075 / 1000000000000000 :: real)"
proof -
  have "(4184076001818 / 1000000000000000 :: real)
          \<le> (\<Sum>i<2 * 1. (- 1) ^ i * (1 / real (i * 2 + 1) * (1 / 239) ^ (i * 2 + 1)))"
    by (simp add: eval_nat_numeral)
  also have "\<dots> \<le> arctan (1 / 239)" by (rule arctan_bounds) simp_all
  finally show "(4184076001818 / 1000000000000000 :: real) \<le> arctan (1 / 239)" .
  have "arctan (1 / 239) \<le> (\<Sum>i<2 * 1 + 1. (- 1) ^ i * (1 / real (i * 2 + 1) * (1 / 239) ^ (i * 2 + 1)))"
    by (rule arctan_bounds) simp_all
  also have "\<dots> \<le> (4184076002075 / 1000000000000000 :: real)"
    by (simp add: eval_nat_numeral)
  finally show "arctan (1 / 239) \<le> (4184076002075 / 1000000000000000 :: real)" .
qed

lemma pi_bounds:
  "(3141592653588 / 1000000000000 :: real) < pi" "pi < (3141592653591 / 1000000000000 :: real)"
proof -
  have "pi = 16 * arctan (1 / 5) - 4 * arctan (1 / 239)"
    using machin by simp
  with arctan_5_bounds arctan_239_bounds
  show "(3141592653588 / 1000000000000 :: real) < pi" "pi < (3141592653591 / 1000000000000 :: real)"
    by simp_all
qed

lemma sin_near:
  fixes a b :: real
  shows "\<bar>sin a - sin b\<bar> \<le> \<bar>a - b\<bar>"
proof -
  have "\<bar>sin a - sin b\<bar> = 2 * \<bar>sin ((a - b) / 2)\<bar> * \<bar>cos ((a + b) / 2)\<bar>"
    by (simp add: sin_diff_sin abs_mult)
  also have "\<dots> \<le> 2 * \<bar>(a - b) / 2\<bar> * 1"
    by (intro mult_mono mult_nonneg_nonneg abs_sin_x_le_abs_x) simp_all
  finally show ?thesis by simp
qed

lemma rnd_half: "rnd (1 / 2) = Fin (1 / 2)"
  by code_simp

lemma sanitize_sin: "sanitize ''sin(30)'' = ''sin(30)''"
  by code_simp

lemma near_pi_sixth: "\<bar>4716158501352293 / 2 ^ 53 - pi / 6\<bar> \<le> 1 / 10 ^ 12"
proof -
  have "4716158501352293 / 9007199254740992 - pi / 6 \<le> 1 / 1000000000000"
    using pi_bounds by linarith
  moreover have "pi / 6 - 4716158501352293 / 9007199254740992 \<le> 1 / 1000000000000"
    using pi_bounds by linarith
  ultimately have "\<bar>4716158501352293 / 9007199254740992 - pi / 6\<bar> \<le> 1 / 1000000000000"
    by (simp only: abs_le_iff minus_diff_eq)
  then show ?thesis by simp
qed

lemma near_half:
  fixes a :: real
  assumes "\<bar>a - 1 / 2\<bar> \<le> 1 / 10 ^ 11 + 1 / 10 ^ 12"
  shows "49999999995 / 10 ^ 11 \<le> a" "a < 50000000005 / 10 ^ 11"
proof -
  from assms have "\<bar>a - 1 / 2\<bar> \<le> 11 / 1000000000000" by simp
  then have "a - 1 / 2 \<le> 11 / 1000000000000" "1 / 2 - a \<le> 11 / 1000000000000"
    by (simp_all only: abs_le_iff minus_diff_eq)
  then have "49999999995 / 100000000000 \<le> a" "a < 50000000005 / 100000000000"
    by linarith+
  then show "49999999995 / 10 ^ 11 \<le> a" "a < 50000000005 / 10 ^ 11" by simp_all
qed


lemma sin_30_degrees_real:
  "\<bar>sin (4716158501352293 / 2 ^ 53 :: real) - 1 / 2\<bar> \<le> 1 / 10 ^ 12"
proof -
  have "\<bar>sin (4716158501352293 / 2 ^ 53 :: real) - sin (pi / 6)\<bar>
          \<le> \<bar>4716158501352293 / 2 ^ 53 - pi / 6\<bar>"
    by (rule sin_near)
  also have "\<dots> \<le> 1 / 10 ^ 12"
    by (rule near_pi_sixth)
  finally show ?thesis by (simp only: sin_30)
qed

lemma round10_near_half:
  assumes "49999999995 / 10 ^ 11 \<le> y" "y < 50000000005 / 10 ^ 11"
  shows "round10 (Fin y) = Fin (1 / 2)"
proof -
  have "\<lfloor>y * 10 ^ 10 + 1 / 2\<rfloor> = 5000000000"
    using assms by (intro floor_unique) simp_all
  moreover have "\<not> 10 ^ 21 \<le> \<bar>y\<bar>" "\<not> y < 0" using assms by simp_all
  ultimately show ?thesis by (simp add: round10_def rnd_half)
qed

lemma es_return_sin:
  "es_return param_names ''sin(30)'' (call_arguments h st) =
     Some (VNumber (sinImpl h (angleMode st = DEG) (Fin 30)))"
  by (simp add: es_return_def parse_sin resolve_def param_names_def call_arguments_def Let_def)

lemma sin_30_value:
  assumes "sine_within h (degToRad (Fin 30)) (1 / 10 ^ 11)"
  shows "\<exists>y. sinImpl h True (Fin 30) = Fin y \<and> 49999999995 / 10 ^ 11 \<le> y \<and> y < 50000000005 / 10 ^ 11"
proof -
  from assms obtain y where y: "Math_sin h (Fin (4716158501352293 / 2 ^ 53)) = Fin y"
    and acc: "\<bar>of_rat y - sin (of_rat (4716158501352293 / 2 ^ 53))\<bar> \<le> (1 / 10 ^ 11 :: real)"
    by (auto simp: sine_within_def degToRad_30 split: jsnum.splits)
  have eq: "(of_rat (4716158501352293 / 2 ^ 53) :: real) = 4716158501352293 / 2 ^ 53"
    by (simp add: of_rat_divide of_rat_power)
  from acc have "\<bar>of_rat y - sin (4716158501352293 / 2 ^ 53 :: real)\<bar> \<le> 1 / 10 ^ 11"
    unfolding eq .
  with sin_30_degrees_real
  have "\<bar>(of_rat y :: real) - 1 / 2\<bar> \<le> 1 / 10 ^ 11 + 1 / 10 ^ 12" by linarith
  then have "(49999999995 / 10 ^ 11 :: real) \<le> of_rat y"
    and "(of_rat y :: real) < 50000000005 / 10 ^ 11"
    by (rule near_half)+
  moreover have "(of_rat (49999999995 / 10 ^ 11) :: real) = 49999999995 / 10 ^ 11"
    "(of_rat (50000000005 / 10 ^ 11) :: real) = 50000000005 / 10 ^ 11"
    by (simp_all add: of_rat_divide of_rat_power)
  ultimately have "(of_rat (49999999995 / 10 ^ 11) :: real) \<le> of_rat y"
    and "(of_rat y :: real) < of_rat (50000000005 / 10 ^ 11)"
    by (simp_all only:)
  then have "49999999995 / 10 ^ 11 \<le> y" "y < 50000000005 / 10 ^ 11"
    by (simp_all only: of_rat_less_eq of_rat_less)
  with y show ?thesis by (simp add: sinImpl_def degToRad_30)
qed

lemma sine_within_example: "sine_within example_host (degToRad (Fin 30)) (1 / 10 ^ 11)"
proof -
  have eq: "(of_rat (4716158501352293 / 2 ^ 53) :: real) = 4716158501352293 / 2 ^ 53"
    "(of_rat (9007199254740991 / 2 ^ 54) :: real) = 9007199254740991 / 2 ^ 54"
    by (simp_all add: of_rat_divide of_rat_power)
  have "\<bar>(9007199254740991 / 2 ^ 54 :: real) - 1 / 2\<bar> \<le> 1 / 10 ^ 12" by simp
  with sin_30_degrees_real
  have "\<bar>(9007199254740991 / 2 ^ 54 :: real) - sin (4716158501352293 / 2 ^ 53)\<bar>
          \<le> 1 / 10 ^ 12 + 1 / 10 ^ 12"
    by linarith
  also have "\<dots> \<le> (1 / 10 ^ 11 :: real)" by simp
  finally have acc: "\<bar>of_rat (9007199254740991 / 2 ^ 54) - sin (of_rat (4716158501352293 / 2 ^ 53))\<bar>
          \<le> (1 / 10 ^ 11 :: real)"
    unfolding eq .
  have m: "Math_sin example_host (Fin (4716158501352293 / 2 ^ 53)) =
      Fin (9007199254740991 / 2 ^ 54)"
    by (simp add: example_host_def)
  show ?thesis
    unfolding sine_within_def degToRad_30 m jsnum.case by (rule acc)
qed

section \<open>Evaluation on a page\<close>

lemma sanitize_click: "sanitize click_text = click_text"
  unfolding click_text_def by code_simp

lemma click_text_nonempty: "click_text \<noteq> []"
  by (simp add: click_text_def)

lemma evaluateExpression_on_sanitize:
  "evaluateExpression_on p rawExpr st =
     (if sanitize rawExpr = [] then Some (Empty, st)
      else if ActionKey ''equals'' \<in> set (dispatched p (function_body (sanitize rawExpr)) st) then None
      else
        let st1 = foldl (step (engine p)) st (dispatched p (function_body (sanitize rawExpr)) st)
        in case Function_call (engine p) param_names (function_body (sanitize rawExpr))
                  (call_arguments (engine p) st) of
             Threw \<Rightarrow> Some (Error, showErrorAnimation st1)
           | Returned result \<Rightarrow>
               (case result of
                  VNumber x \<Rightarrow>
                    if is_finite x then Some (Value (round10 x), st1)
                    else Some (Error, showErrorAnimation st1)
                | _ \<Rightarrow> Some (Error, showErrorAnimation st1)))"
  unfolding sanitize_eq evaluateExpression_on_def Let_def
  by (simp add: remove_disallowed_def)

lemma evaluateExpression_on_quiet:
  assumes "dispatched p (function_body (sanitize rawExpr)) st = []"
  shows "evaluateExpression_on p rawExpr st = Some (evaluateExpression (engine p) rawExpr st)"
  using assms
  by (simp add: evaluateExpression_on_sanitize evaluateExpression_sanitize
      split: completion.split jsvalue.split)

text \<open>
  Claim C3. The ledger never holds more than 20 entries, whatever the keys pressed.
  \<^verbatim>\<open>addToHistory\<close> puts a valid entry (a finite result, an expression that is
  not blank) at the front; onto a ledger of 20 entries it drops the last, oldest entry
  and leaves 20. Pushing 21 valid entries to the empty ledger leaves the last 20 of
  them, newest first: the first one pushed is evicted.
\<close>

theorem history_ledger_bounded:
  "length (history (run h evs)) \<le> 20 \<and>
   (is_finite res \<and> trim expr \<noteq> [] \<longrightarrow>
      hd (history (addToHistory expr res st)) = (expr, res) \<and>
      (length (history st) < 20 \<longrightarrow>
         history (addToHistory expr res st) = (expr, res) # history st) \<and>
      (length (history st) = 20 \<longrightarrow>
         history (addToHistory expr res st) = (expr, res) # butlast (history st) \<and>
         length (history (addToHistory expr res st)) = 20)) \<and>
   (list_all (\<lambda>(e, r). is_finite r \<and> trim e \<noteq> []) es \<and> length es = 21 \<longrightarrow>
      history (push_all es initial) = rev (tl es) \<and>
      length (history (push_all es initial)) = 20)"
proof (intro conjI impI)
  show "length (history (run h evs)) \<le> 20" by (rule length_history_run)
next
  assume "is_finite res \<and> trim expr \<noteq> []"
  then show "hd (history (addToHistory expr res st)) = (expr, res)"
    by (simp add: addToHistory_push)
next
  assume "is_finite res \<and> trim expr \<noteq> []" "length (history st) < 20"
  then show "history (addToHistory expr res st) = (expr, res) # history st"
    by (simp add: addToHistory_push)
next
  assume a: "is_finite res \<and> trim expr \<noteq> []" "length (history st) = 20"
  then show "history (addToHistory expr res st) = (expr, res) # butlast (history st)"
    by (simp add: addToHistory_push)
  with a show "length (history (addToHistory expr res st)) = 20" by simp
next
  assume a: "list_all (\<lambda>(e, r). is_finite r \<and> trim e \<noteq> []) es \<and> length es = 21"
  then obtain x xs where es: "es = x # xs" by (cases es) auto
  have "history (push_all es initial) = take 20 (rev es @ history initial)"
    using a by (intro push_all_take) (simp_all add: initial_def clearExpression_def syncDisplay_def)
  also have "\<dots> = rev (tl es)"
    using a es by (simp add: initial_def clearExpression_def syncDisplay_def)
  finally show "history (push_all es initial) = rev (tl es)" .
  with a es show "length (history (push_all es initial)) = 20" by simp
qed


theorem history_ledger_bounded_witness:
  "is_finite (Fin 2) \<and> trim ''1+1'' \<noteq> [] \<and> length (history full_ledger) = 20 \<and>
   history (addToHistory ''1+1'' (Fin 2) full_ledger) = (''1+1'', Fin 2) # replicate 19 (''2+2'', Fin 4)"
  using history_ledger_bounded [of _ _ "Fin 2" "''1+1''" full_ledger "[]"]
  by (simp add: is_finite_def trim_def whitespace_def full_ledger_def butlast_conv_take)

text \<open>
  Claim C2. The claim asks that a commit whose evaluation ends in \<^verbatim>\<open>"Error"\<close> leaves
  the buffer, the last result and the ledger as they were, and line 327 says the same
  of the code. The code does not keep it: the evaluated text runs in the global scope
  and can click a key of the page while it is evaluated. When the buffer holds a text
  whose evaluation dispatches one key with the value \<open>v\<close> and has the value
  \<^verbatim>\<open>undefined\<close>, the commit ends in \<^verbatim>\<open>"Error"\<close> and the buffer is what appending
  \<open>v\<close> makes of it; the last result and the ledger are unchanged. On the example
  page \<^verbatim>\<open>keypad.children.item(0).click()\<close> is such a text: the buffer has a \<^verbatim>\<open>7\<close> at
  its end after the failed commit.
\<close>

theorem commit_changes_buffer_on_error:
  "expression st \<noteq> [] \<and> sanitize (expression st) = t \<and> t \<noteq> [] \<and>
   Function_call (engine p) param_names (function_body t) (call_arguments (engine p) st) =
     Returned VUndefined \<and>
   dispatched p (function_body t) st = [Key v] \<longrightarrow>
     map_option fst (evaluateExpression_on p (expression st) st) = Some Error \<and>
     map_option expression (commit_on p st) = Some (expression (appendToExpression v st)) \<and>
     map_option lastResult (commit_on p st) = Some (lastResult st) \<and>
     map_option history (commit_on p st) = Some (history st)"
proof
  assume a: "expression st \<noteq> [] \<and> sanitize (expression st) = t \<and> t \<noteq> [] \<and>
   Function_call (engine p) param_names (function_body t) (call_arguments (engine p) st) =
     Returned VUndefined \<and>
   dispatched p (function_body t) st = [Key v]"
  then have ev: "evaluateExpression_on p (expression st) st =
      Some (Error, showErrorAnimation (appendToExpression v st))"
    by (simp add: evaluateExpression_on_sanitize)
  with a show "map_option fst (evaluateExpression_on p (expression st) st) = Some Error \<and>
     map_option expression (commit_on p st) = Some (expression (appendToExpression v st)) \<and>
     map_option lastResult (commit_on p st) = Some (lastResult st) \<and>
     map_option history (commit_on p st) = Some (history st)"
    by (simp add: commit_on_def showErrorAnimation_def syncDisplay_def
        appendToExpression_def Let_def)
qed

theorem commit_changes_buffer_on_error_witness:
  "expression (initial\<lparr>expression := click_text\<rparr>) \<noteq> [] \<and>
   sanitize click_text = click_text \<and>
   Function_call (engine example_page) param_names (function_body click_text)
     (call_arguments (engine example_page) (initial\<lparr>expression := click_text\<rparr>)) =
     Returned VUndefined \<and>
   dispatched example_page (function_body click_text) (initial\<lparr>expression := click_text\<rparr>) =
     [Key ''7''] \<and>
   map_option fst
     (evaluateExpression_on example_page click_text (initial\<lparr>expression := click_text\<rparr>)) =
     Some Error \<and>
   map_option expression (commit_on example_page (initial\<lparr>expression := click_text\<rparr>)) =
     Some (click_text @ ''7'') \<and>
   click_text @ ''7'' \<noteq> click_text"
proof -
  have e: "expression (appendToExpression ''7'' (initial\<lparr>expression := click_text\<rparr>)) =
      click_text @ ''7''"
    by (simp add: expression_appendToExpression operators_def click_text_nonempty)
  from e click_text_nonempty sanitize_click
    commit_changes_buffer_on_error
      [of "initial\<lparr>expression := click_text\<rparr>" click_text example_page "''7''"]
  show ?thesis by (simp add: example_page_def)
qed

text \<open>
  Claim C6. Whatever the engine: when the call returns a value that is not a finite
  Number, \<^verbatim>\<open>evaluateExpression\<close> returns the same \<^verbatim>\<open>"Error"\<close>, with the same
  error animation, as when the construction or the call of the function throws; the
  caller cannot tell the two apart. On an engine that implements the fragment,
  \<^verbatim>\<open>1/0\<close> is such an input, in every angle mode and for every last result.
\<close>

theorem nonfinite_is_error:
  "(sanitize rawExpr \<noteq> [] \<and>
    Function_call h param_names (function_body (sanitize rawExpr)) (call_arguments h st) = Returned v \<and>
    \<not> finite_number v \<longrightarrow>
      evaluateExpression h rawExpr st = (Error, showErrorAnimation st)) \<and>
   (sanitize rawExpr \<noteq> [] \<and>
    Function_call h param_names (function_body (sanitize rawExpr)) (call_arguments h st) = Threw \<longrightarrow>
      evaluateExpression h rawExpr st = (Error, showErrorAnimation st)) \<and>
   (implements_fragment h \<longrightarrow> evaluateExpression h ''1/0'' st = (Error, showErrorAnimation st))"
proof (intro conjI impI)
  assume "sanitize rawExpr \<noteq> [] \<and>
    Function_call h param_names (function_body (sanitize rawExpr)) (call_arguments h st) = Returned v \<and>
    \<not> finite_number v"
  then show "evaluateExpression h rawExpr st = (Error, showErrorAnimation st)"
    by (cases v) (simp_all add: evaluateExpression_sanitize finite_number_def)
next
  assume "sanitize rawExpr \<noteq> [] \<and>
    Function_call h param_names (function_body (sanitize rawExpr)) (call_arguments h st) = Threw"
  then show "evaluateExpression h rawExpr st = (Error, showErrorAnimation st)"
    by (simp add: evaluateExpression_sanitize)
next
  assume "implements_fragment h"
  then show "evaluateExpression h ''1/0'' st = (Error, showErrorAnimation st)"
    using evaluateExpression_fragment [OF _ sanitize_1_0 _ es_return_1_0, of h st]
    by (simp add: is_finite_def)
qed


theorem nonfinite_is_error_witness:
  "implements_fragment example_host \<and>
   sanitize ''1/0'' \<noteq> [] \<and>
   Function_call example_host param_names (function_body (sanitize ''1/0'')) (call_arguments example_host initial)
     = Returned (VNumber PosInf) \<and>
   \<not> finite_number (VNumber PosInf) \<and>
   evaluateExpression example_host ''1/0'' initial = (Error, showErrorAnimation initial)"
  using nonfinite_is_error [of "''1/0''" example_host initial "VNumber PosInf"]
    implements_fragment_example
  by (simp add: sanitize_1_0 finite_number_def is_finite_def example_host_def es_return_1_0)

text \<open>
  Claim C7. Sanitizing a sanitized text changes nothing: the text has no white space,
  no character outside the allowed class and no caret left, and no percent sign in it
  stands directly behind a digit.
\<close>

theorem sanitize_idempotent: "sanitize (sanitize s) = sanitize s"
  by (rule sanitize_idem)

text \<open>
  Claim C5. Line 198 replaces a maximal numeric literal \<open>n\<close> in front of a percent
  sign by \<^verbatim>\<open>(n/100)\<close>; the text before it and the text behind it are rewritten on
  their own, from the left, and the replacement is not rewritten again. A text in which
  no percent sign stands directly behind a digit is left as it is. So \<^verbatim>\<open>50%\<close> is
  sanitized to \<^verbatim>\<open>(50/100)\<close>, and on an engine that implements the fragment its value
  is 0.5, in every angle mode and for every last result.
\<close>

theorem percent_is_division_by_100:
  "(maximal_literal pre n \<longrightarrow>
      percent_rewrite (pre @ n @ CHR ''%'' # post) =
        percent_rewrite pre @ ''('' @ n @ ''/100)'' @ percent_rewrite post) \<and>
   (no_digit_percent s \<longrightarrow> percent_rewrite s = s) \<and>
   sanitize ''50%'' = ''(50/100)'' \<and>
   (implements_fragment h \<longrightarrow> evaluateExpression h ''50%'' st = (Value (Fin (1 / 2)), st))"
proof (intro conjI impI)
  assume "maximal_literal pre n"
  then show "percent_rewrite (pre @ n @ CHR ''%'' # post) =
        percent_rewrite pre @ ''('' @ n @ ''/100)'' @ percent_rewrite post"
    by (rule percent_rewrite_maximal)
next
  assume "no_digit_percent s"
  then show "percent_rewrite s = s" by (rule percent_rewrite_fixed)
next
  show "sanitize ''50%'' = ''(50/100)''" by (rule sanitize_50)
next
  assume "implements_fragment h"
  then show "evaluateExpression h ''50%'' st = (Value (Fin (1 / 2)), st)"
    using evaluateExpression_fragment [OF _ sanitize_50 _ es_return_50, of h st]
    by (simp add: is_finite_def round10_half)
qed

theorem percent_is_division_by_100_witness:
  "maximal_literal ''2*'' ''12.5'' \<and>
   percent_rewrite (''2*'' @ ''12.5'' @ CHR ''%'' # ''+7'') = ''2*(12.5/100)+7'' \<and>
   no_digit_percent ''(3+2)%'' \<and> percent_rewrite ''(3+2)%'' = ''(3+2)%'' \<and>
   implements_fragment example_host \<and>
   evaluateExpression example_host ''50%'' initial = (Value (Fin (1 / 2)), initial)"
proof -
  have m: "maximal_literal ''2*'' ''12.5''" by code_simp
  have n: "no_digit_percent ''(3+2)%''" by (simp add: digit_def)
  have p: "percent_rewrite ''2*'' = ''2*''" "percent_rewrite ''+7'' = ''+7''" by code_simp+
  from m n p implements_fragment_example
    percent_is_division_by_100 [of "''2*''" "''12.5''" "''+7''" "''(3+2)%''" example_host initial]
  show ?thesis by simp
qed

text \<open>
  Claim C1. The nine names are parameters of the function that line 209 builds, but
  the body is ordinary code: a name that is not a parameter is looked up in the global
  object of the engine. So \<^verbatim>\<open>1/Infinity\<close>, which passes the sanitizer unchanged,
  does not end in \<^verbatim>\<open>"Error"\<close>: on an engine that implements the fragment the name
  \<^verbatim>\<open>Infinity\<close> resolves and the value is 0.
\<close>

theorem unlisted_name_resolves:
  "sanitize ''1/Infinity'' = ''1/Infinity'' \<and>
   (implements_fragment h \<longrightarrow> evaluateExpression h ''1/Infinity'' st = (Value (Fin 0), st))"
proof (intro conjI impI)
  show "sanitize ''1/Infinity'' = ''1/Infinity''" by (rule sanitize_inf)
next
  assume "implements_fragment h"
  then show "evaluateExpression h ''1/Infinity'' st = (Value (Fin 0), st)"
    using evaluateExpression_fragment [OF _ sanitize_inf _ es_return_inf, of h st]
    by (simp add: is_finite_def round10_0)
qed

theorem unlisted_name_resolves_witness:
  "implements_fragment example_host \<and>
   evaluateExpression example_host ''1/Infinity'' initial = (Value (Fin 0), initial)"
  using unlisted_name_resolves [of example_host initial] implements_fragment_example
  by simp

text \<open>
  Claim C4, as the code has it. \<^verbatim>\<open>appendToExpression\<close> guards the simple case only
  (line 70): it looks at the whole token, and concatenates a token that is not itself a
  substring of \<^verbatim>\<open>+-*/^\<close>. A token of several characters that starts with an operator
  puts two operators side by side: after the keys \<^verbatim>\<open>3\<close>, \<^verbatim>\<open>+\<close> and a key with the value
  \<^verbatim>\<open>-(\<close> the buffer is \<^verbatim>\<open>3+-(\<close>.
\<close>

theorem adjacent_operators_counterexample:
  "expression (run example_host [Key ''3'', Key ''+'', Key ''-('']) = ''3+-('' \<and>
   \<not> no_adjacent_operators (expression (run example_host [Key ''3'', Key ''+'', Key ''-(''])) "
  by (simp add: run_def initial_def clearExpression_def expression_appendToExpression
      operators_def binary_operator_def)

text \<open>
  Claim C4, amended. When every token appended is one operator character, or a text
  that has no two operators side by side and does not start with one, and the engine
  prints numbers in the form ECMAScript gives, the buffer never has two operators side
  by side, whatever the keys. Appending one operator to a buffer that is empty or ends
  in an operator replaces the last character: from \<^verbatim>\<open>3+\<close>, appending \<^verbatim>\<open>-\<close> gives
  \<^verbatim>\<open>3-\<close>.
\<close>

theorem buffer_without_adjacent_operators:
  "(toString_conforms h \<and> list_all safe_event evs \<longrightarrow>
      no_adjacent_operators (expression (run h evs))) \<and>
   (binary_operator c \<and> (expression st = [] \<or> binary_operator (last (expression st))) \<longrightarrow>
      expression (appendToExpression [c] st) = butlast (expression st) @ [c]) \<and>
   expression (appendToExpression ''-'' (st\<lparr>expression := ''3+''\<rparr>)) = ''3-''"
proof (intro conjI impI)
  assume "toString_conforms h \<and> list_all safe_event evs"
  then have "session_invariant (run h evs)" by (simp add: invariant_run)
  then show "no_adjacent_operators (expression (run h evs))"
    by (simp add: session_invariant_def)
next
  assume "binary_operator c \<and> (expression st = [] \<or> binary_operator (last (expression st)))"
  then show "expression (appendToExpression [c] st) = butlast (expression st) @ [c]"
    by (simp add: expression_appendToExpression str_includes_single)
next
  show "expression (appendToExpression ''-'' (st\<lparr>expression := ''3+''\<rparr>)) = ''3-''"
    by (simp add: expression_appendToExpression operators_def binary_operator_def)
qed

theorem buffer_without_adjacent_operators_witness:
  "toString_conforms example_host \<and>
   list_all safe_event [Key ''3'', Key ''+'', Key ''-''] \<and>
   no_adjacent_operators (expression (run example_host [Key ''3'', Key ''+'', Key ''-''])) \<and>
   expression (run example_host [Key ''3'', Key ''+'', Key ''-'']) = ''3-'' \<and>
   binary_operator CHR ''-'' \<and> binary_operator (last (expression (initial\<lparr>expression := ''3+''\<rparr>))) \<and>
   expression (appendToExpression ''-'' (initial\<lparr>expression := ''3+''\<rparr>)) = ''3-''"
proof -
  have s: "list_all safe_event [Key ''3'', Key ''+'', Key ''-'']"
    by (simp add: safe_event_def safe_token_def binary_operator_def)
  have e: "expression (run example_host [Key ''3'', Key ''+'', Key ''-'']) = ''3-''"
    by (simp add: run_def initial_def clearExpression_def expression_appendToExpression
        operators_def binary_operator_def)
  have b: "binary_operator CHR ''-''" "binary_operator (last (expression (initial\<lparr>expression := ''3+''\<rparr>)))"
    by (simp_all add: binary_operator_def)
  from s e b toString_conforms_example
    buffer_without_adjacent_operators
      [of example_host "[Key ''3'', Key ''+'', Key ''-'']" "CHR ''-''" "initial\<lparr>expression := ''3+''\<rparr>"]
  show ?thesis by simp
qed

text \<open>
  Claim C8. In degree mode the functions bound to \<^verbatim>\<open>sin\<close>, \<^verbatim>\<open>cos\<close> and \<^verbatim>\<open>tan\<close>
  apply the engine's function to \<open>x * Math.PI / 180\<close>, computed in doubles, and a
  finite result \<open>y\<close> of the call is returned as \<^verbatim>\<open>Number(y.toFixed(10))\<close>. For
  \<^verbatim>\<open>sin(30)\<close> the argument of the engine's sine is within \<open>10\<^sup>-\<^sup>1\<^sup>2\<close> of \<open>\<pi>/6\<close>; when
  the engine's sine is within \<open>10\<^sup>-\<^sup>1\<^sup>1\<close> of the sine there, the value returned is 0.5.
\<close>

theorem sine_of_30_degrees:
  "sinImpl h True x = Math_sin h (js_div (js_mul x Math_PI) (Fin 180)) \<and>
   cosImpl h True x = Math_cos h (js_div (js_mul x Math_PI) (Fin 180)) \<and>
   tanImpl h True x = Math_tan h (js_div (js_mul x Math_PI) (Fin 180)) \<and>
   (angleMode st = DEG \<longrightarrow>
      take 3 (call_arguments h st) =
        [VFunction (sinImpl h True), VFunction (cosImpl h True), VFunction (tanImpl h True)]) \<and>
   (sanitize rawExpr \<noteq> [] \<and>
    Function_call h param_names (function_body (sanitize rawExpr)) (call_arguments h st) =
      Returned (VNumber y) \<and>
    is_finite y \<longrightarrow>
      evaluateExpression h rawExpr st = (Value (round10 y), st)) \<and>
   (implements_fragment h \<and> angleMode st = DEG \<and>
    sine_within h (degToRad (Fin 30)) (1 / 10 ^ 11) \<longrightarrow>
      evaluateExpression h ''sin(30)'' st = (Value (Fin (1 / 2)), st))"
proof (intro conjI impI)
  assume "angleMode st = DEG"
  then show "take 3 (call_arguments h st) =
        [VFunction (sinImpl h True), VFunction (cosImpl h True), VFunction (tanImpl h True)]"
    by (simp add: call_arguments_def)
next
  assume "sanitize rawExpr \<noteq> [] \<and>
    Function_call h param_names (function_body (sanitize rawExpr)) (call_arguments h st) =
      Returned (VNumber y) \<and>
    is_finite y"
  then show "evaluateExpression h rawExpr st = (Value (round10 y), st)"
    by (simp add: evaluateExpression_sanitize)
next
  assume a: "implements_fragment h \<and> angleMode st = DEG \<and>
    sine_within h (degToRad (Fin 30)) (1 / 10 ^ 11)"
  then obtain y where y: "sinImpl h True (Fin 30) = Fin y"
    "49999999995 / 10 ^ 11 \<le> y" "y < 50000000005 / 10 ^ 11"
    using sin_30_value by blast
  from a have "es_return param_names ''sin(30)'' (call_arguments h st) = Some (VNumber (Fin y))"
    by (simp add: es_return_sin y(1))
  with a have "evaluateExpression h ''sin(30)'' st =
      (if is_finite (Fin y) then (Value (round10 (Fin y)), st) else (Error, showErrorAnimation st))"
    by (intro evaluateExpression_fragment [OF _ sanitize_sin]) simp_all
  with y(2,3) show "evaluateExpression h ''sin(30)'' st = (Value (Fin (1 / 2)), st)"
    by (simp add: is_finite_def round10_near_half)
qed (simp_all add: sinImpl_def cosImpl_def tanImpl_def degToRad_def)

theorem sine_of_30_degrees_witness:
  "angleMode initial = DEG \<and> implements_fragment example_host \<and>
   sine_within example_host (degToRad (Fin 30)) (1 / 10 ^ 11) \<and>
   sinImpl example_host True (Fin 30) = Fin (9007199254740991 / 2 ^ 54) \<and>
   evaluateExpression example_host ''sin(30)'' initial = (Value (Fin (1 / 2)), initial)"
proof -
  have d: "angleMode initial = DEG"
    by (simp add: initial_def clearExpression_def syncDisplay_def)
  have s: "sinImpl example_host True (Fin 30) = Fin (9007199254740991 / 2 ^ 54)"
    by (simp add: sinImpl_def degToRad_30 example_host_def)
  from d s implements_fragment_example sine_within_example
    sine_of_30_degrees [of example_host "Fin 30" initial "''sin(30)''" "Fin 0"]
  show ?thesis by simp
qed

text \<open>
  Claim C9. In every state the keys can reach, the main display shows \<^verbatim>\<open>0\<close> when
  the buffer is empty. A commit there, on an engine that implements the fragment and
  prints integers as ECMAScript says, evaluates that text: the last result becomes 0,
  the entry of \<^verbatim>\<open>0\<close> and 0 is pushed to the ledger, and the buffer becomes \<^verbatim>\<open>0\<close>.
\<close>

theorem commit_on_empty_buffer:
  "implements_fragment h \<and> toString_conforms h \<and> expression (run h evs) = [] \<longrightarrow>
     displayMain (run h evs) = ''0'' \<and>
     lastResult (handleAction h ''equals'' (run h evs)) = Some (Fin 0) \<and>
     expression (handleAction h ''equals'' (run h evs)) = ''0'' \<and>
     history (handleAction h ''equals'' (run h evs)) =
       (let l = (''0'', Fin 0) # history (run h evs) in if 20 < length l then butlast l else l)"
proof
  assume a: "implements_fragment h \<and> toString_conforms h \<and> expression (run h evs) = []"
  define st where "st = run h evs"
  have d: "displayMain st = ''0''"
    using display_synced_run [of h evs] a by (simp add: display_synced_def st_def)
  have ev: "evaluateExpression h ''0'' st = (Value (Fin 0), st)"
    using a evaluateExpression_fragment [OF _ sanitize_0 _ es_return_0, of h st]
    by (simp add: is_finite_def round10_0)
  have ts: "Number_toString h (Fin 0) = ''0''"
  proof -
    from a have "\<forall>n. \<bar>n\<bar> < 2 ^ 53 \<longrightarrow> Number_toString h (Fin (of_int n)) = integer_text n"
      by (simp add: toString_conforms_def)
    from this [rule_format, of 0] show ?thesis by (simp add: integer_text_0)
  qed
  from a have e: "expression st = []" by (simp add: st_def)
  have "lastResult (handleAction h ''equals'' st) = Some (Fin 0) \<and>
     expression (handleAction h ''equals'' st) = ''0'' \<and>
     history (handleAction h ''equals'' st) =
       (let l = (''0'', Fin 0) # history st in if 20 < length l then butlast l else l)"
    using equals_effect [of st h] by (simp add: e d ev ts Let_def)
  with d show "displayMain (run h evs) = ''0'' \<and>
     lastResult (handleAction h ''equals'' (run h evs)) = Some (Fin 0) \<and>
     expression (handleAction h ''equals'' (run h evs)) = ''0'' \<and>
     history (handleAction h ''equals'' (run h evs)) =
       (let l = (''0'', Fin 0) # history (run h evs) in if 20 < length l then butlast l else l)"
    by (simp add: st_def)
qed


theorem commit_on_empty_buffer_witness:
  "implements_fragment example_host \<and> toString_conforms example_host \<and>
   expression (run example_host []) = [] \<and>
   displayMain (run example_host []) = ''0'' \<and>
   lastResult (handleAction example_host ''equals'' (run example_host [])) = Some (Fin 0) \<and>
   expression (handleAction example_host ''equals'' (run example_host [])) = ''0'' \<and>
   history (handleAction example_host ''equals'' (run example_host [])) = [(''0'', Fin 0)]"
  using commit_on_empty_buffer [of example_host "[]"]
    implements_fragment_example toString_conforms_example
  by (simp add: run_def initial_def clearExpression_def syncDisplay_def)

text \<open>
  Claim C10. A percent sign that does not stand directly behind a digit, and so not
  behind a numeric literal, is kept by line 198, and the texts on its two sides are
  rewritten on their own. The engine reads the kept sign as the remainder operator:
  \<^verbatim>\<open>(3+2)%3\<close> is sanitized to itself, and on an engine that implements the fragment
  its value is 2.
\<close>

theorem percent_is_remainder:
  "(pre = [] \<or> \<not> digit (last pre) \<longrightarrow>
      percent_rewrite (pre @ CHR ''%'' # post) =
        percent_rewrite pre @ CHR ''%'' # percent_rewrite post) \<and>
   sanitize ''(3+2)%3'' = ''(3+2)%3'' \<and>
   (implements_fragment h \<longrightarrow> evaluateExpression h ''(3+2)%3'' st = (Value (Fin 2), st))"
proof (intro conjI impI)
  assume "pre = [] \<or> \<not> digit (last pre)"
  then show "percent_rewrite (pre @ CHR ''%'' # post) =
        percent_rewrite pre @ CHR ''%'' # percent_rewrite post"
    by (rule percent_rewrite_kept)
next
  show "sanitize ''(3+2)%3'' = ''(3+2)%3''" by (rule sanitize_rem)
next
  assume "implements_fragment h"
  then show "evaluateExpression h ''(3+2)%3'' st = (Value (Fin 2), st)"
    using evaluateExpression_fragment [OF _ sanitize_rem _ es_return_rem, of h st]
    by (simp add: is_finite_def round10_2)
qed

theorem percent_is_remainder_witness:
  "\<not> digit (last ''(3+2)'') \<and>
   percent_rewrite (''(3+2)'' @ CHR ''%'' # ''3'') = ''(3+2)%3'' \<and>
   implements_fragment example_host \<and>
   evaluateExpression example_host ''(3+2)%3'' initial = (Value (Fin 2), initial)"
proof -
  have d: "\<not> digit (last ''(3+2)'')" by (simp add: digit_def)
  have p: "percent_rewrite ''(3+2)'' = ''(3+2)''" "percent_rewrite ''3'' = ''3''" by code_simp+
  from d p implements_fragment_example
    percent_is_remainder [of "''(3+2)''" "''3''" example_host initial]
  show ?thesis by simp
qed

end
